theory Spec2Isabelle
  imports Main "HOL-Library.Word" "HOL-Library.Log_Nat"
begin

section \<open>Exchange fan controller: run-state machine and duty-cycle estimator\<close>

text \<open>
  The sketch \<^verbatim>\<open>mcp9808_rtc_Andee_log.ino\<close> runs on an Arduino Uno (AVR):
  \<^verbatim>\<open>unsigned long\<close> is a 32-bit word whose arithmetic wraps, \<^verbatim>\<open>int\<close> is a
  16-bit two's-complement word, and \<^verbatim>\<open>float\<close> is IEEE 754 binary32.
  All program state lives in global variables; one call of \<^verbatim>\<open>loop()\<close> is one
  control cycle.
\<close>

subsection \<open>Binary32 arithmetic\<close>

text \<open>
  A \<^verbatim>\<open>float\<close> is a finite value (kept as the exact rational it denotes), an
  infinity or a NaN. Every arithmetic result is rounded to the nearest binary32
  value, ties to even, with gradual underflow below \<open>2^-126\<close> and overflow to
  infinity from \<open>2^128\<close> on. The two zeros are identified: the program never
  inspects the sign of a zero, and every divisor in it is the conversion of an
  integer, which is never the negative zero.
\<close>

datatype float32 = Finite rat | PInf | NInf | NaN

definition rne :: "rat \<Rightarrow> int" where
  "rne x = (let f = \<lfloor>x\<rfloor>; d = x - of_int f in
     if d < 1 / 2 then f
     else if 1 / 2 < d then f + 1
     else if even f then f else f + 1)"

text \<open>The binary exponent of a positive rational: \<open>2 powi ilog2 x \<le> x < 2 powi (ilog2 x + 1)\<close>.\<close>

definition ilog2 :: "rat \<Rightarrow> int" where
  "ilog2 x = (if 1 \<le> x then bitlen \<lfloor>x\<rfloor> - 1 else - bitlen (\<lceil>1 / x\<rceil> - 1))"

text \<open>The spacing of binary32 values around a positive \<open>x\<close>: 24 significant bits,
  exponents no smaller than \<open>-126\<close>.\<close>

definition quantum :: "rat \<Rightarrow> rat" where
  "quantum x = 2 powi (max (ilog2 x) (- 126) - 23)"

definition round_pos :: "rat \<Rightarrow> rat" where
  "round_pos x = of_int (rne (x / quantum x)) * quantum x"

definition round32 :: "rat \<Rightarrow> float32" where
  "round32 x =
     (if x = 0 then Finite 0
      else if 0 < x then (if round_pos x < 2 ^ 128 then Finite (round_pos x) else PInf)
      else (if round_pos (- x) < 2 ^ 128 then Finite (- round_pos (- x)) else NInf))"

fun fadd :: "float32 \<Rightarrow> float32 \<Rightarrow> float32" where
  "fadd NaN _ = NaN"
| "fadd _ NaN = NaN"
| "fadd PInf NInf = NaN"
| "fadd NInf PInf = NaN"
| "fadd PInf _ = PInf"
| "fadd NInf _ = NInf"
| "fadd _ PInf = PInf"
| "fadd _ NInf = NInf"
| "fadd (Finite x) (Finite y) = round32 (x + y)"

fun fmul :: "float32 \<Rightarrow> float32 \<Rightarrow> float32" where
  "fmul NaN _ = NaN"
| "fmul _ NaN = NaN"
| "fmul PInf PInf = PInf"
| "fmul PInf NInf = NInf"
| "fmul NInf PInf = NInf"
| "fmul NInf NInf = PInf"
| "fmul PInf (Finite y) = (if y = 0 then NaN else if 0 < y then PInf else NInf)"
| "fmul NInf (Finite y) = (if y = 0 then NaN else if 0 < y then NInf else PInf)"
| "fmul (Finite x) PInf = (if x = 0 then NaN else if 0 < x then PInf else NInf)"
| "fmul (Finite x) NInf = (if x = 0 then NaN else if 0 < x then NInf else PInf)"
| "fmul (Finite x) (Finite y) = round32 (x * y)"

fun fdiv :: "float32 \<Rightarrow> float32 \<Rightarrow> float32" where
  "fdiv NaN _ = NaN"
| "fdiv _ NaN = NaN"
| "fdiv PInf (Finite y) = (if 0 \<le> y then PInf else NInf)"
| "fdiv NInf (Finite y) = (if 0 \<le> y then NInf else PInf)"
| "fdiv PInf _ = NaN"
| "fdiv NInf _ = NaN"
| "fdiv (Finite x) PInf = Finite 0"
| "fdiv (Finite x) NInf = Finite 0"
| "fdiv (Finite x) (Finite y) =
     (if y = 0 then (if x = 0 then NaN else if 0 < x then PInf else NInf)
      else round32 (x / y))"

text \<open>The comparisons \<^verbatim>\<open><\<close>, \<^verbatim>\<open>>\<close>, \<^verbatim>\<open>>=\<close>: false as soon as one side is a NaN.\<close>

fun flt :: "float32 \<Rightarrow> float32 \<Rightarrow> bool" where
  "flt NaN _ = False"
| "flt _ NaN = False"
| "flt PInf _ = False"
| "flt _ NInf = False"
| "flt NInf _ = True"
| "flt _ PInf = True"
| "flt (Finite x) (Finite y) = (x < y)"

definition fgt :: "float32 \<Rightarrow> float32 \<Rightarrow> bool" where
  "fgt a b = flt b a"

fun fge :: "float32 \<Rightarrow> float32 \<Rightarrow> bool" where
  "fge NaN _ = False"
| "fge _ NaN = False"
| "fge PInf _ = True"
| "fge _ NInf = True"
| "fge NInf _ = False"
| "fge _ PInf = False"
| "fge (Finite x) (Finite y) = (y \<le> x)"

text \<open>Conversions \<^verbatim>\<open>(float)\<close> of an \<^verbatim>\<open>unsigned long\<close> and of an \<^verbatim>\<open>int\<close>.\<close>

definition float_of_ulong :: "32 word \<Rightarrow> float32" where
  "float_of_ulong w = round32 (of_nat (unat w))"

definition float_of_int16 :: "16 word \<Rightarrow> float32" where
  "float_of_int16 w = round32 (of_int (sint w))"

subsection \<open>The duty-cycle estimator\<close>

text \<open>
  \<^verbatim>\<open>
  float calcPeriodRatio ( unsigned long currentT, unsigned long onT, unsigned long periodT ) {
    float result;
    if (periodT > currentT)  currentT = currentT + 86400;
    if (periodT > onT)  onT = onT + 86400;
    result = ((float)(currentT - onT) / (float)(currentT - periodT));
    return result;
  }
  \<close>
\<close>

definition calcPeriodRatio :: "32 word \<Rightarrow> 32 word \<Rightarrow> 32 word \<Rightarrow> float32" where
  "calcPeriodRatio currentT onT periodT =
     (let currentT' = (if currentT < periodT then currentT + 86400 else currentT);
          onT' = (if onT < periodT then onT + 86400 else onT)
      in fdiv (float_of_ulong (currentT' - onT')) (float_of_ulong (currentT' - periodT)))"

text \<open>
  \<^verbatim>\<open>
  const int maxN = 64;
  float calcMovingAverage (float mA, float Xi, int & count){
    if (count < maxN) count++;
    float mAout;
    mAout = (mA * (count - 1) + Xi) / count;
    return mAout;
  }
  \<close>
  The reference parameter \<^verbatim>\<open>count\<close> is returned as the second component.
\<close>

definition maxN :: "16 word" where
  "maxN = 64"

definition calcMovingAverage :: "float32 \<Rightarrow> float32 \<Rightarrow> 16 word \<Rightarrow> float32 \<times> 16 word" where
  "calcMovingAverage mA Xi count =
     (let count' = (if sint count < sint maxN then count + 1 else count)
      in (fdiv (fadd (fmul mA (float_of_int16 (count' - 1))) Xi) (float_of_int16 count'), count'))"

subsection \<open>The control cycle\<close>

text \<open>
  Pin levels, the four run states (the \<^verbatim>\<open>#define\<close>d values 0 to 3 of the
  \<^verbatim>\<open>int runState\<close>; \<^verbatim>\<open>setup()\<close> and \<^verbatim>\<open>loop()\<close> assign no other value, so
  the \<^verbatim>\<open>default\<close> branch of the \<^verbatim>\<open>switch\<close> is never taken), and the global
  variables that the fan control reads and writes. \<open>relayControlPin\<close> is the
  level last written to the relay pin: \<open>LOW\<close> runs the fan, \<open>HIGH\<close> stops it.
\<close>

datatype level = LOW | HIGH

datatype run_state = notRunning | Running | RunningAdjusting | notRunningAdjusting

record ctrl =
  currentTime :: "32 word"
  doorComplete :: "32 word"
  SSbedroom :: bool
  SSoffice :: bool
  SSkitchen :: bool
  SSfurnace :: bool
  SSrunning :: bool
  actualRatio :: float32
  movingAverage :: float32
  averageCount :: "16 word"
  runState :: run_state
  onPeriodStart :: "32 word"
  totPeriodStart :: "32 word"
  relayControlPin :: level

text \<open>
  What one cycle reads from outside: the clock (\<^verbatim>\<open>rtc.now().unixtime()\<close>), the four
  \<^verbatim>\<open>digitalRead\<close>s, and the two settings \<^verbatim>\<open>desiredRatio\<close> and
  \<^verbatim>\<open>adjustmentEnabled\<close> as the slider and button handling at the top of
  \<^verbatim>\<open>loop()\<close> leaves them.
\<close>

record cycle_in =
  unixtime :: "32 word"
  bedroomSensorInput :: level
  officeSensorInput :: level
  kitchenSensorInput :: level
  furnaceSensorInput :: level
  desiredRatio :: float32
  adjustmentEnabled :: bool

definition doorDelay :: "32 word" where
  "doorDelay = 120"

text \<open>Lines 391 to 397: the clock is read; at startup the on-period begins now.\<close>

definition loop_clock :: "cycle_in \<Rightarrow> ctrl \<Rightarrow> ctrl" where
  "loop_clock i s =
     (let s1 = s\<lparr>currentTime := unixtime i\<rparr>
      in if onPeriodStart s1 = 0 \<and> runState s1 = Running
         then s1\<lparr>onPeriodStart := currentTime s1\<rparr> else s1)"

text \<open>
  Lines 421 to 468: the switches are read. A change of the sliding door's
  reading restarts the door delay; \<^verbatim>\<open>SSkitchen\<close> follows the reading at once.
\<close>

definition loop_sensors :: "cycle_in \<Rightarrow> ctrl \<Rightarrow> ctrl" where
  "loop_sensors i s =
     (let s1 = s\<lparr>SSbedroom := (bedroomSensorInput i \<noteq> LOW)\<rparr>;
          s2 = s1\<lparr>SSoffice := (officeSensorInput i \<noteq> LOW)\<rparr>;
          s3 = (if kitchenSensorInput i = LOW
                then (if SSkitchen s2 then s2\<lparr>doorComplete := currentTime s2 + doorDelay\<rparr> else s2)
                       \<lparr>SSkitchen := False\<rparr>
                else (if \<not> SSkitchen s2 then s2\<lparr>doorComplete := currentTime s2 + doorDelay\<rparr> else s2)
                       \<lparr>SSkitchen := True\<rparr>);
          s4 = s3\<lparr>SSfurnace := (furnaceSensorInput i \<noteq> LOW)\<rparr>
      in if totPeriodStart s4 = 0 then s4\<lparr>totPeriodStart := currentTime s4\<rparr> else s4)"

text \<open>
  Lines 470 to 540: the \<^verbatim>\<open>switch (runState)\<close>. The second component lists the
  \<^verbatim>\<open>digitalWrite(relayControlPin, _)\<close> calls of the cycle, in order.
  In C++ \<^verbatim>\<open>&&\<close> binds tighter than \<^verbatim>\<open>||\<close>, so
  \<^verbatim>\<open>SSbedroom || SSoffice || SSfurnace || SSkitchen && ( currentTime > doorComplete )\<close>
  groups the time test with \<^verbatim>\<open>SSkitchen\<close> alone.
\<close>

definition loop_switch :: "cycle_in \<Rightarrow> ctrl \<Rightarrow> ctrl \<times> level list" where
  "loop_switch i s =
     (case runState s of
        Running \<Rightarrow>
          (let s1 = s\<lparr>actualRatio :=
                        calcPeriodRatio (currentTime s) (onPeriodStart s) (totPeriodStart s)\<rparr>;
               s2 = (if adjustmentEnabled i \<and> fgt (actualRatio s1) (desiredRatio i)
                     then s1\<lparr>runState := notRunningAdjusting\<rparr> else s1)
           in if SSbedroom s2 \<or> SSoffice s2 \<or> SSfurnace s2 \<or>
                 (SSkitchen s2 \<and> doorComplete s2 < currentTime s2)
              then (if adjustmentEnabled i \<and> flt (actualRatio s2) (desiredRatio i)
                    then (s2\<lparr>runState := RunningAdjusting\<rparr>, [])
                    else (let (m, c) = calcMovingAverage (movingAverage s2) (actualRatio s2)
                                         (averageCount s2)
                          in (s2\<lparr>runState := notRunning, SSrunning := False,
                                  movingAverage := m, averageCount := c,
                                  actualRatio := Finite 0,
                                  totPeriodStart := currentTime s2,
                                  relayControlPin := HIGH\<rparr>, [HIGH])))
              else (s2, []))
      | notRunning \<Rightarrow>
          (if \<not> SSbedroom s \<and> \<not> SSoffice s \<and> \<not> SSfurnace s \<and>
              (\<not> SSkitchen s \<and> doorComplete s < currentTime s)
           then (s\<lparr>runState := Running, SSrunning := True,
                    onPeriodStart := currentTime s, relayControlPin := LOW\<rparr>, [LOW])
           else (s, []))
      | RunningAdjusting \<Rightarrow>
          (let s1 = s\<lparr>actualRatio :=
                        calcPeriodRatio (currentTime s) (onPeriodStart s) (totPeriodStart s)\<rparr>
           in if fgt (actualRatio s1) (desiredRatio i) \<or> \<not> adjustmentEnabled i
              then (let (m, c) = calcMovingAverage (movingAverage s1) (actualRatio s1)
                                   (averageCount s1)
                    in (s1\<lparr>movingAverage := m, averageCount := c,
                            actualRatio := Finite 0,
                            totPeriodStart := currentTime s1,
                            relayControlPin := HIGH,
                            runState := notRunning, SSrunning := False\<rparr>, [HIGH]))
              else (s1, []))
      | notRunningAdjusting \<Rightarrow>
          (let s1 = s\<lparr>relayControlPin := HIGH, SSrunning := False\<rparr>
           in if SSbedroom s1 \<or> SSoffice s1 \<or> SSfurnace s1 \<or>
                 (SSkitchen s1 \<and> doorComplete s1 < currentTime s1)
              then (let (m, c) = calcMovingAverage (movingAverage s1) (actualRatio s1)
                                   (averageCount s1)
                    in (s1\<lparr>movingAverage := m, averageCount := c,
                            actualRatio := Finite 0,
                            totPeriodStart := currentTime s1,
                            runState := notRunning\<rparr>, [HIGH]))
              else (s1, [HIGH])))"

text \<open>One control cycle: clock, switches, then the run-state switch.\<close>

definition loop :: "cycle_in \<Rightarrow> ctrl \<Rightarrow> ctrl \<times> level list" where
  "loop i s = loop_switch i (loop_sensors i (loop_clock i s))"

text \<open>
  Lines 216 to 235, the end of \<^verbatim>\<open>setup()\<close>: the fan starts running when
  all four inputs read \<^verbatim>\<open>LOW\<close>, and stopped otherwise. The other globals
  have their initial values (zero where the sketch gives none). The function is
  named \<open>setup_sketch\<close> because \<open>setup\<close> is a keyword of Isabelle.
\<close>

definition setup_sketch :: "level \<Rightarrow> level \<Rightarrow> level \<Rightarrow> level \<Rightarrow> ctrl" where
  "setup_sketch bedroom office kitchen furnace =
     (let s = \<lparr>currentTime = 0, doorComplete = 0,
                SSbedroom = False, SSoffice = False, SSkitchen = False, SSfurnace = False,
                SSrunning = False, actualRatio = Finite 0, movingAverage = Finite 0,
                averageCount = 0, runState = notRunning,
                onPeriodStart = 0, totPeriodStart = 0, relayControlPin = LOW\<rparr>
      in if bedroom = LOW \<and> office = LOW \<and> kitchen = LOW \<and> furnace = LOW
         then s\<lparr>runState := Running, SSrunning := True, relayControlPin := LOW\<rparr>
         else s\<lparr>runState := notRunning, SSrunning := False, movingAverage := Finite 0,
                 actualRatio := Finite 0, relayControlPin := HIGH\<rparr>)"

text \<open>
  A run of the controller: the states the global variables are in after each of
  a sequence of cycles. The \<^verbatim>\<open>switch\<close> changes none of \<^verbatim>\<open>SSkitchen\<close>,
  \<^verbatim>\<open>doorComplete\<close> and \<^verbatim>\<open>currentTime\<close>, so a state of the run holds the
  values that the cycle's \<^verbatim>\<open>switch\<close> tested.
\<close>

fun run_cycles :: "ctrl \<Rightarrow> cycle_in list \<Rightarrow> ctrl list" where
  "run_cycles s [] = []"
| "run_cycles s (i # ins) = fst (loop i s) # run_cycles (fst (loop i s)) ins"

subsection \<open>Rounding to binary32: bounds, monotonicity, exact integers\<close>

lemma rne_of_int: "rne (of_int n) = n"
  by (simp add: rne_def)

lemma rne_bounds: "of_int (rne x) \<le> x + 1 / 2 \<and> x - 1 / 2 \<le> of_int (rne x)"
  unfolding rne_def Let_def by (auto; linarith)

lemma rne_mono: "x \<le> y \<Longrightarrow> rne x \<le> rne y"
proof -
  assume xy: "x \<le> y"
  have fl: "\<lfloor>x\<rfloor> \<le> \<lfloor>y\<rfloor>" using xy by (rule floor_mono)
  show ?thesis
  proof (cases "\<lfloor>x\<rfloor> = \<lfloor>y\<rfloor>")
    case True
    with xy show ?thesis unfolding rne_def Let_def by auto
  next
    case False
    with fl have lt: "\<lfloor>x\<rfloor> + 1 \<le> \<lfloor>y\<rfloor>" by simp
    have a: "rne x \<le> \<lfloor>x\<rfloor> + 1" unfolding rne_def Let_def by auto
    have b: "\<lfloor>y\<rfloor> \<le> rne y" unfolding rne_def Let_def by auto
    from a b lt show ?thesis by linarith
  qed
qed

lemma rne_le_int: "x \<le> of_int n \<Longrightarrow> rne x \<le> n"
  using rne_mono [of x "of_int n"] by (simp add: rne_of_int)

lemma rne_ge_int: "of_int n \<le> x \<Longrightarrow> n \<le> rne x"
  using rne_mono [of "of_int n" x] by (simp add: rne_of_int)

lemma ilog2_bounds:
  assumes "0 < x"
  shows "2 powi ilog2 x \<le> x \<and> x < 2 powi (ilog2 x + 1)"
proof (cases "1 \<le> x")
  case True
  define n where "n = \<lfloor>x\<rfloor>"
  have n1: "1 \<le> n" using True by (simp add: n_def)
  then have n0: "0 < n" by simp
  have k1: "1 \<le> bitlen n" using n0 bitlen_eq_zero_iff [of n] bitlen_nonneg [of n] by linarith
  from bitlen_bounds [OF n0]
  have lo: "2 ^ nat (bitlen n - 1) \<le> n" and hi: "n < 2 ^ nat (bitlen n)" by simp_all
  have e: "ilog2 x = bitlen n - 1" using True by (simp add: ilog2_def n_def)
  have "(2::rat) powi (bitlen n - 1) = 2 ^ nat (bitlen n - 1)"
    using k1 by (simp add: power_int_nonneg_exp)
  also have "\<dots> = of_int (2 ^ nat (bitlen n - 1))" by simp
  also have "\<dots> \<le> of_int n" using lo by (simp only: of_int_le_iff)
  also have "\<dots> \<le> x" by (simp add: n_def)
  finally have A: "2 powi ilog2 x \<le> x" by (simp add: e)
  have "n + 1 \<le> 2 ^ nat (bitlen n)" using hi by simp
  then have "(of_int (n + 1) :: rat) \<le> of_int (2 ^ nat (bitlen n))" by (simp only: of_int_le_iff)
  moreover have "x < of_int (n + 1)" using floor_correct [of x] by (simp add: n_def)
  ultimately have "x < of_int (2 ^ nat (bitlen n))" by linarith
  also have "\<dots> = 2 powi (bitlen n)" using k1 by (simp add: power_int_nonneg_exp)
  finally have B: "x < 2 powi (ilog2 x + 1)" by (simp add: e)
  from A B show ?thesis ..
next
  case False
  then have x1: "x < 1" by simp
  define y where "y = 1 / x"
  have y1: "1 < y" using assms x1 by (simp add: y_def)
  define n where "n = \<lceil>y\<rceil> - 1"
  have n1: "1 \<le> n" using y1 by (simp add: n_def)
  then have n0: "0 < n" by simp
  have ny: "of_int n < y" unfolding n_def by linarith
  have yn: "y \<le> of_int (n + 1)" unfolding n_def by simp
  have k1: "1 \<le> bitlen n" using n0 bitlen_eq_zero_iff [of n] bitlen_nonneg [of n] by linarith
  from bitlen_bounds [OF n0]
  have lo: "2 ^ nat (bitlen n - 1) \<le> n" and hi: "n < 2 ^ nat (bitlen n)" by simp_all
  have e: "ilog2 x = - bitlen n" using False by (simp add: ilog2_def n_def y_def)
  have "n + 1 \<le> 2 ^ nat (bitlen n)" using hi by simp
  then have "(of_int (n + 1) :: rat) \<le> of_int (2 ^ nat (bitlen n))" by (simp only: of_int_le_iff)
  with yn have "y \<le> 2 ^ nat (bitlen n)" by simp
  then have "1 / x \<le> 2 powi (bitlen n)" using k1 by (simp add: power_int_nonneg_exp y_def)
  then have "1 \<le> 2 powi (bitlen n) * x" using assms by (simp add: field_simps)
  then have "1 / 2 powi (bitlen n) \<le> x" by (simp add: field_simps)
  then have A: "2 powi ilog2 x \<le> x" by (simp add: e power_int_minus_divide)
  have "(of_int (2 ^ nat (bitlen n - 1)) :: rat) \<le> of_int n" using lo by (simp only: of_int_le_iff)
  then have "(2::rat) ^ nat (bitlen n - 1) \<le> of_int n" by simp
  with ny have "2 ^ nat (bitlen n - 1) < y" by linarith
  then have "2 powi (bitlen n - 1) < 1 / x" using k1 by (simp add: power_int_nonneg_exp y_def)
  then have "2 powi (bitlen n - 1) * x < 1" using assms by (simp add: field_simps)
  then have "x < 1 / 2 powi (bitlen n - 1)" by (simp add: field_simps)
  also have "\<dots> = 2 powi (- (bitlen n - 1))" by (simp only: power_int_minus_divide)
  finally have B: "x < 2 powi (ilog2 x + 1)" by (simp add: e)
  from A B show ?thesis ..
qed


lemma ilog2_mono:
  assumes "0 < x" and "x \<le> y"
  shows "ilog2 x \<le> ilog2 y"
proof (rule ccontr)
  assume "\<not> ilog2 x \<le> ilog2 y"
  then have "ilog2 y + 1 \<le> ilog2 x" by simp
  then have "(2::rat) powi (ilog2 y + 1) \<le> 2 powi ilog2 x"
    by (rule power_int_increasing) simp
  also have "\<dots> \<le> x" using ilog2_bounds [OF assms(1)] by simp
  also have "\<dots> \<le> y" by (rule assms(2))
  finally have "2 powi (ilog2 y + 1) \<le> y" .
  moreover have "y < 2 powi (ilog2 y + 1)" using ilog2_bounds [of y] assms by simp
  ultimately show False by simp
qed

lemma quantum_pos: "0 < quantum x"
  by (simp add: quantum_def)

lemma quantum_times: "2 ^ 23 * quantum x = 2 powi (max (ilog2 x) (- 126))"
proof -
  have "(2::rat) powi (23 + (max (ilog2 x) (- 126) - 23)) = 2 powi 23 * 2 powi (max (ilog2 x) (- 126) - 23)"
    by (rule power_int_add) simp
  then show ?thesis by (simp add: quantum_def)
qed

lemma quantum_times': "2 ^ 24 * quantum x = 2 powi (max (ilog2 x) (- 126) + 1)"
proof -
  have "(2::rat) powi (24 + (max (ilog2 x) (- 126) - 23)) = 2 powi 24 * 2 powi (max (ilog2 x) (- 126) - 23)"
    by (rule power_int_add) simp
  moreover have "24 + (max (ilog2 x) (- 126) - 23) = max (ilog2 x) (- 126) + 1" by simp
  ultimately show ?thesis by (simp add: quantum_def)
qed

lemma round_pos_nonneg:
  assumes "0 \<le> x"
  shows "0 \<le> round_pos x"
proof -
  have "0 \<le> x / quantum x" using assms quantum_pos [of x] by simp
  then have "0 \<le> rne (x / quantum x)" using rne_ge_int [of 0] by simp
  then show ?thesis using quantum_pos [of x] by (simp add: round_pos_def)
qed

lemma round_pos_upper:
  assumes "0 < x"
  shows "round_pos x \<le> 2 powi (max (ilog2 x) (- 126) + 1)"
proof -
  have "x < 2 powi (ilog2 x + 1)" using ilog2_bounds [OF assms] by simp
  also have "\<dots> \<le> 2 powi (max (ilog2 x) (- 126) + 1)"
    by (rule power_int_increasing) simp_all
  also have "\<dots> = 2 ^ 24 * quantum x" by (simp only: quantum_times')
  finally have "x / quantum x \<le> 2 ^ 24" using quantum_pos [of x] by (simp add: field_simps)
  then have "x / quantum x \<le> of_int (2 ^ 24)" by simp
  then have "rne (x / quantum x) \<le> 2 ^ 24" by (rule rne_le_int)
  then have "(of_int (rne (x / quantum x)) :: rat) \<le> of_int (2 ^ 24)" by (simp only: of_int_le_iff)
  then have "of_int (rne (x / quantum x)) * quantum x \<le> of_int (2 ^ 24) * quantum x"
    using quantum_pos [of x] by (simp only: mult_le_cancel_right_pos)
  then show ?thesis by (simp add: round_pos_def quantum_times' [symmetric])
qed

lemma round_pos_lower:
  assumes "0 < x" and "- 126 \<le> ilog2 x"
  shows "2 powi (ilog2 x) \<le> round_pos x"
proof -
  have m: "max (ilog2 x) (- 126) = ilog2 x" using assms(2) by simp
  have "2 ^ 23 * quantum x = 2 powi (ilog2 x)" by (simp only: quantum_times m)
  also have "\<dots> \<le> x" using ilog2_bounds [OF assms(1)] by simp
  finally have "2 ^ 23 \<le> x / quantum x" using quantum_pos [of x] by (simp add: field_simps)
  then have "of_int (2 ^ 23) \<le> x / quantum x" by simp
  then have "2 ^ 23 \<le> rne (x / quantum x)" by (rule rne_ge_int)
  then have "(of_int (2 ^ 23) :: rat) \<le> of_int (rne (x / quantum x))" by (simp only: of_int_le_iff)
  then have "of_int (2 ^ 23) * quantum x \<le> of_int (rne (x / quantum x)) * quantum x"
    using quantum_pos [of x] by (simp only: mult_le_cancel_right_pos)
  moreover have "of_int (2 ^ 23) * quantum x = 2 powi (ilog2 x)"
    using quantum_times [of x] by (simp add: m)
  ultimately show ?thesis by (simp add: round_pos_def)
qed

lemma round_pos_mono:
  assumes "0 < x" and "x \<le> y"
  shows "round_pos x \<le> round_pos y"
proof -
  have y0: "0 < y" using assms by simp
  have le: "max (ilog2 x) (- 126) \<le> max (ilog2 y) (- 126)"
    using ilog2_mono [OF assms] by simp
  show ?thesis
  proof (cases "max (ilog2 x) (- 126) = max (ilog2 y) (- 126)")
    case True
    then have q: "quantum x = quantum y" by (simp add: quantum_def)
    have "x / quantum y \<le> y / quantum y"
      using assms(2) quantum_pos [of y] by (simp add: divide_right_mono)
    then have "rne (x / quantum y) \<le> rne (y / quantum y)" by (rule rne_mono)
    then have "(of_int (rne (x / quantum y)) :: rat) \<le> of_int (rne (y / quantum y))"
      by (simp only: of_int_le_iff)
    then have "of_int (rne (x / quantum y)) * quantum y \<le> of_int (rne (y / quantum y)) * quantum y"
      using quantum_pos [of y] by (simp only: mult_le_cancel_right_pos)
    then show ?thesis by (simp add: round_pos_def q)
  next
    case False
    with le have lt: "max (ilog2 x) (- 126) + 1 \<le> max (ilog2 y) (- 126)" by simp
    then have ey: "max (ilog2 y) (- 126) = ilog2 y" and ge: "- 126 \<le> ilog2 y" by auto
    have "round_pos x \<le> 2 powi (max (ilog2 x) (- 126) + 1)"
      by (rule round_pos_upper [OF assms(1)])
    also have "\<dots> \<le> 2 powi (ilog2 y)"
      using lt ey by (intro power_int_increasing) simp_all
    also have "\<dots> \<le> round_pos y" by (rule round_pos_lower [OF y0 ge])
    finally show ?thesis .
  qed
qed

lemma round32_mono:
  assumes "0 \<le> x" and "x \<le> y"
  shows "fge (round32 y) (round32 x)"
proof (cases "x = 0")
  case True
  then show ?thesis using assms round_pos_nonneg [of y] by (simp add: round32_def)
next
  case False
  with assms have x0: "0 < x" and y0: "0 < y" by simp_all
  have "round_pos x \<le> round_pos y" by (rule round_pos_mono [OF x0 assms(2)])
  then show ?thesis using x0 y0 by (simp add: round32_def)
qed

lemma round_pos_of_int:
  assumes "0 < n" and "n < 2 ^ 24"
  shows "round_pos (of_int n) = of_int n"
proof -
  define x :: rat where "x = of_int n"
  have x0: "0 < x" and x1: "1 \<le> x" using assms(1) by (simp_all add: x_def)
  have xu: "x < 2 powi 24"
  proof -
    have "(of_int n :: rat) < of_int (2 ^ 24)" using assms(2) by (simp only: of_int_less_iff)
    then show ?thesis by (simp add: x_def)
  qed
  have e0: "0 \<le> ilog2 x"
  proof (rule ccontr)
    assume "\<not> 0 \<le> ilog2 x"
    then have "ilog2 x + 1 \<le> 0" by simp
    then have "(2::rat) powi (ilog2 x + 1) \<le> 2 powi 0" by (rule power_int_increasing) simp
    with ilog2_bounds [OF x0] x1 show False by simp
  qed
  have e23: "ilog2 x \<le> 23"
  proof (rule ccontr)
    assume "\<not> ilog2 x \<le> 23"
    then have "24 \<le> ilog2 x" by simp
    then have "(2::rat) powi 24 \<le> 2 powi ilog2 x" by (rule power_int_increasing) simp
    with ilog2_bounds [OF x0] xu show False by linarith
  qed
  define k where "k = nat (23 - ilog2 x)"
  have q: "quantum x = 1 / 2 ^ k"
  proof -
    have "max (ilog2 x) (- 126) - 23 = - int k" using e0 e23 by (simp add: k_def)
    then show ?thesis by (simp add: quantum_def power_int_minus_divide)
  qed
  have "x / quantum x = of_int (n * 2 ^ k)" unfolding q by (simp add: x_def)
  then have "rne (x / quantum x) = n * 2 ^ k" by (simp only: rne_of_int)
  then have "round_pos x = of_int n" by (simp add: round_pos_def q)
  then show ?thesis by (simp add: x_def)
qed

lemma round32_of_int:
  assumes "\<bar>n\<bar> < 2 ^ 24"
  shows "round32 (of_int n) = Finite (of_int n)"
proof -
  have small: "(of_int m :: rat) < 2 ^ 128" if "m < 2 ^ 24" for m :: int
  proof -
    have "(of_int m :: rat) < of_int (2 ^ 24)" using that by (simp only: of_int_less_iff)
    then show ?thesis by simp
  qed
  consider "n = 0" | "0 < n" | "n < 0" by linarith
  then show ?thesis
  proof cases
    case 1
    then show ?thesis by (simp add: round32_def)
  next
    case 2
    with assms have "n < 2 ^ 24" by simp
    with 2 show ?thesis using round_pos_of_int [of n] small [of n] by (simp add: round32_def)
  next
    case 3
    with assms have "- n < 2 ^ 24" and "0 < - n" by simp_all
    with 3 show ?thesis using round_pos_of_int [of "- n"] small [of "- n"]
      by (simp add: round32_def)
  qed
qed

lemma ilog2_nonneg:
  assumes "1 \<le> x"
  shows "0 \<le> ilog2 x"
proof (rule ccontr)
  assume "\<not> 0 \<le> ilog2 x"
  then have "ilog2 x + 1 \<le> 0" by simp
  then have "(2::rat) powi (ilog2 x + 1) \<le> 2 powi 0" by (rule power_int_increasing) simp
  with ilog2_bounds [of x] assms show False by simp
qed

lemma ilog2_less:
  assumes "0 < x" and "x < 2 powi k"
  shows "ilog2 x < k"
proof (rule ccontr)
  assume "\<not> ilog2 x < k"
  then have "k \<le> ilog2 x" by simp
  then have "(2::rat) powi k \<le> 2 powi ilog2 x" by (rule power_int_increasing) simp
  with ilog2_bounds [OF assms(1)] assms(2) show False by linarith
qed

lemma float_of_int16_exact: "float_of_int16 w = Finite (of_int (sint w))"
proof -
  have "- (2 ^ 15) \<le> sint w" and "sint w < 2 ^ 15"
    using sint_ge [of w] sint_lt [of w] by simp_all
  then have "\<bar>sint w\<bar> < 2 ^ 24" by simp
  then show ?thesis unfolding float_of_int16_def by (rule round32_of_int)
qed

lemma float_of_ulong_exact:
  assumes "unat w < 2 ^ 24"
  shows "float_of_ulong w = Finite (of_nat (unat w))"
proof -
  have "int (unat w) < int (2 ^ 24)" using assms by (simp only: of_nat_less_iff)
  then have "\<bar>uint w\<bar> < 2 ^ 24" by simp
  then have "round32 (of_int (uint w)) = Finite (of_int (uint w))"
    by (rule round32_of_int)
  moreover have "(of_int (uint w) :: rat) = of_nat (unat w)" by simp
  ultimately show ?thesis by (simp only: float_of_ulong_def)
qed

lemma float_of_ulong_zero: "float_of_ulong 0 = Finite 0"
  by (simp add: float_of_ulong_def round32_def)

lemma float_of_ulong_pos:
  assumes "w \<noteq> 0"
  shows "\<exists>r. float_of_ulong w = Finite r \<and> 0 < r"
proof -
  define x :: rat where "x = of_nat (unat w)"
  have "unat w \<noteq> 0" using assms by (simp add: unat_eq_0)
  then have "1 \<le> unat w" by simp
  then have "(of_nat 1 :: rat) \<le> of_nat (unat w)" by (simp only: of_nat_le_iff)
  then have x1: "1 \<le> x" unfolding x_def by simp
  then have x0: "0 < x" by simp
  have "unat w < 2 ^ LENGTH(32)" by (rule unsigned_less)
  then have "unat w < 2 ^ 32" by simp
  then have "(of_nat (unat w) :: rat) < of_nat (2 ^ 32)" by (simp only: of_nat_less_iff)
  then have xu: "x < 2 powi 32" by (simp add: x_def)
  have e0: "0 \<le> ilog2 x" by (rule ilog2_nonneg [OF x1])
  have e31: "ilog2 x < 32" by (rule ilog2_less [OF x0 xu])
  have ge: "- 126 \<le> ilog2 x" using e0 by simp
  have "0 < (2::rat) powi ilog2 x" by simp
  also have "\<dots> \<le> round_pos x" by (rule round_pos_lower [OF x0 ge])
  finally have pos: "0 < round_pos x" .
  have "round_pos x \<le> 2 powi (max (ilog2 x) (- 126) + 1)" by (rule round_pos_upper [OF x0])
  also have "\<dots> \<le> 2 powi 32" using e0 e31 by (intro power_int_increasing) simp_all
  also have "\<dots> < 2 ^ 128" by simp
  finally have "round_pos x < 2 ^ 128" .
  with x0 pos show ?thesis by (simp add: float_of_ulong_def round32_def x_def)
qed

lemma float_of_ulong_finite: "\<exists>r. float_of_ulong w = Finite r \<and> 0 \<le> r"
proof (cases "w = 0")
  case True
  then show ?thesis by (simp add: float_of_ulong_zero)
next
  case False
  from float_of_ulong_pos [OF this] show ?thesis by (auto intro: less_imp_le)
qed

lemma fdiv_ulong_zero:
  "fdiv (float_of_ulong a) (float_of_ulong 0) = (if a = 0 then NaN else PInf)"
proof (cases "a = 0")
  case True
  then show ?thesis by (simp add: float_of_ulong_zero)
next
  case False
  from float_of_ulong_pos [OF this] obtain r where "float_of_ulong a = Finite r" and "0 < r"
    by blast
  with False show ?thesis by (simp add: float_of_ulong_zero)
qed

lemma calcPeriodRatio_zero_elapsed:
  "calcPeriodRatio t t p = Finite 0 \<or> calcPeriodRatio t t p = NaN"
proof -
  obtain r where r: "float_of_ulong ((if t < p then t + 86400 else t) - p) = Finite r"
    using float_of_ulong_finite by blast
  have "round32 (0 / r) = Finite 0" by (simp add: round32_def)
  with r show ?thesis
    by (simp add: calcPeriodRatio_def Let_def float_of_ulong_zero)
qed

subsection \<open>Claims about the period ratio\<close>

text \<open>
  Claim C3 says that a call whose denominator \<open>now - periodStart\<close> (after the
  wrap adjustment) is not positive returns the ratio 0. The denominator is an
  \<^verbatim>\<open>unsigned long\<close>, so not positive means zero. The function has no such
  guard: with all three arguments 100 the division is \<open>0.0 / 0.0\<close> and the
  result is a NaN, not 0.
\<close>


theorem calcPeriodRatio_zero_denominator_counterexample:
  "(100 :: 32 word) - 100 = 0 \<and> calcPeriodRatio 100 100 100 = NaN
   \<and> calcPeriodRatio 100 100 100 \<noteq> Finite 0"
  by (simp add: calcPeriodRatio_def float_of_ulong_zero)

text \<open>
  Claim C3 as the code has it: when the adjusted denominator is zero the
  division is carried out unguarded, and the caller receives a NaN when the
  adjusted numerator is zero as well and plus infinity otherwise.
\<close>

theorem calcPeriodRatio_zero_denominator:
  assumes "(if currentT < periodT then currentT + 86400 else currentT) - periodT = 0"
  shows "calcPeriodRatio currentT onT periodT =
           (if (if currentT < periodT then currentT + 86400 else currentT)
               - (if onT < periodT then onT + 86400 else onT) = 0
            then NaN else PInf)"
  using assms by (simp only: calcPeriodRatio_def Let_def fdiv_ulong_zero)

theorem calcPeriodRatio_zero_denominator_witness:
  "calcPeriodRatio 100 100 100 = NaN \<and> calcPeriodRatio 100 50 100 = PInf"
  using calcPeriodRatio_zero_denominator [of 100 100 100]
        calcPeriodRatio_zero_denominator [of 100 100 50]
  by simp

text \<open>
  Claim C4: midnight wraparound. When \<open>periodT > currentT\<close> the function adds
  86400 to \<open>currentT\<close>, and when \<open>periodT > onT\<close> it adds 86400 to \<open>onT\<close>, before
  the two subtractions; so a wrapped call returns what the call with the
  unwrapped time \<open>currentT + 86400\<close> returns, and in particular
  \<open>periodStart = 86000, onStart = 86000, now = 100\<close> gives the ratio of
  \<open>now = 86500\<close>.
\<close>


theorem calcPeriodRatio_midnight:
  "(currentT < periodT \<longrightarrow> \<not> currentT + 86400 < periodT \<longrightarrow>
      calcPeriodRatio currentT onT periodT = calcPeriodRatio (currentT + 86400) onT periodT)
   \<and> calcPeriodRatio currentT onT periodT =
       fdiv (float_of_ulong ((if currentT < periodT then currentT + 86400 else currentT)
                             - (if onT < periodT then onT + 86400 else onT)))
            (float_of_ulong ((if currentT < periodT then currentT + 86400 else currentT) - periodT))
   \<and> calcPeriodRatio 100 86000 86000 = calcPeriodRatio 86500 86000 86000"
  by (simp add: calcPeriodRatio_def Let_def)

theorem calcPeriodRatio_midnight_witness:
  "(100 :: 32 word) < 86000 \<and> \<not> (100 :: 32 word) + 86400 < 86000
   \<and> calcPeriodRatio 100 86000 86000 = calcPeriodRatio (100 + 86400) 86000 86000
   \<and> calcPeriodRatio 100 86000 86000 = Finite 1"
proof -
  have "float_of_ulong 500 = Finite 500" using float_of_ulong_exact [of 500] by simp
  then have "calcPeriodRatio 86500 86000 86000 = Finite 1"
    using round32_of_int [of 1] by (simp add: calcPeriodRatio_def)
  then show ?thesis
    using calcPeriodRatio_midnight [of 100 86000 86000] by simp
qed

text \<open>
  Without wrap adjustment and with an elapsed period below \<open>2^24\<close> seconds, both
  conversions are exact and the ratio is the rounded quotient.
\<close>

lemma ratio_exact:
  assumes "periodT \<le> onT" and "onT \<le> now" and "periodT < now"
    and "unat now - unat periodT < 2 ^ 24"
  shows "calcPeriodRatio now onT periodT =
           round32 (of_nat (unat now - unat onT) / of_nat (unat now - unat periodT))"
proof -
  have pn: "periodT \<le> now" using assms(3) by simp
  have u1: "unat (now - onT) = unat now - unat onT" by (rule unat_sub [OF assms(2)])
  have u2: "unat (now - periodT) = unat now - unat periodT" by (rule unat_sub [OF pn])
  have "unat periodT \<le> unat onT" using assms(1) by (simp add: word_le_nat_alt)
  then have "unat (now - onT) < 2 ^ 24" using assms(4) u1 by simp
  then have f1: "float_of_ulong (now - onT) = Finite (of_nat (unat now - unat onT))"
    using float_of_ulong_exact [of "now - onT"] by (simp only: u1)
  have "unat (now - periodT) < 2 ^ 24" using assms(4) u2 by simp
  then have f2: "float_of_ulong (now - periodT) = Finite (of_nat (unat now - unat periodT))"
    using float_of_ulong_exact [of "now - periodT"] by (simp only: u2)
  have "unat periodT < unat now" using assms(3) by (simp add: word_less_nat_alt)
  then have "unat now - unat periodT \<noteq> 0" by simp
  then have nz: "(of_nat (unat now - unat periodT) :: rat) \<noteq> 0"
    by (simp only: of_nat_eq_0_iff not_False_eq_True)
  have "\<not> now < periodT" and "\<not> onT < periodT" using pn assms(1) by simp_all
  then have "calcPeriodRatio now onT periodT =
      fdiv (float_of_ulong (now - onT)) (float_of_ulong (now - periodT))"
    by (simp add: calcPeriodRatio_def)
  then show ?thesis using nz by (simp only: f1 f2 fdiv.simps if_False)
qed

lemma occupancy_mono:
  fixes p o' n1 n2 :: nat
  assumes "p \<le> o'" and "o' \<le> n1" and "n1 \<le> n2" and "p < n1"
  shows "(of_nat (n1 - o') :: rat) / of_nat (n1 - p) \<le> of_nat (n2 - o') / of_nat (n2 - p)"
proof -
  have b1: "(0::rat) < of_nat (n1 - p)" and b2: "(0::rat) < of_nat (n2 - p)"
    using assms by simp_all
  have "(n1 - o') * (n2 - p) \<le> (n2 - o') * (n1 - p)"
  proof -
    obtain d where d: "o' = p + d" using assms(1) by (auto simp: le_iff_add)
    obtain a where a: "n1 = o' + a" using assms(2) by (auto simp: le_iff_add)
    obtain b where b: "n2 = n1 + b" using assms(3) by (auto simp: le_iff_add)
    show ?thesis by (simp add: d a b algebra_simps)
  qed
  then have "(of_nat ((n1 - o') * (n2 - p)) :: rat) \<le> of_nat ((n2 - o') * (n1 - p))"
    by (simp only: of_nat_le_iff)
  then have "(of_nat (n1 - o') :: rat) * of_nat (n2 - p) \<le> of_nat (n2 - o') * of_nat (n1 - p)"
    by (simp only: of_nat_mult)
  then show ?thesis using b1 b2 by (simp add: frac_le_eq divide_le_0_iff mult.commute not_le)
qed

text \<open>
  Claim C6 says that for fixed \<open>onStart\<close> and \<open>periodStart\<close> the ratio never
  decreases as \<open>now\<close> grows. With \<open>periodStart = 100\<close> and \<open>onStart = 150\<close>
  the call at \<open>now = 50\<close> takes the wrap adjustment and returns about 0.9994,
  while the call at the later \<open>now = 200\<close> returns 0.5. Two more inputs show
  what else the claim needs. With a period of more than \<open>2^24\<close> seconds the
  conversions to \<^verbatim>\<open>float\<close> round: \<open>periodStart = 1000\<close>, \<open>onStart = 1001\<close>
  give 1.0 at \<open>now = 16778217\<close> and less than 1.0 one second later. And at
  \<open>now = periodStart = onStart\<close> the ratio is a NaN, which no later ratio is
  greater than or equal to.
\<close>

theorem calcPeriodRatio_monotone_counterexample:
  "(50 :: 32 word) \<le> 200
   \<and> calcPeriodRatio 50 150 100 = Finite (16767501 / 16777216)
   \<and> calcPeriodRatio 200 150 100 = Finite (1 / 2)
   \<and> \<not> fge (calcPeriodRatio 200 150 100) (calcPeriodRatio 50 150 100)
   \<and> (16778217 :: 32 word) \<le> 16778218
   \<and> calcPeriodRatio 16778217 1001 1000 = Finite 1
   \<and> calcPeriodRatio 16778218 1001 1000 = Finite (8388607 / 8388608)
   \<and> \<not> fge (calcPeriodRatio 16778218 1001 1000) (calcPeriodRatio 16778217 1001 1000)
   \<and> (100 :: 32 word) \<le> 200
   \<and> calcPeriodRatio 100 100 100 = NaN
   \<and> calcPeriodRatio 200 100 100 = Finite 1
   \<and> \<not> fge (calcPeriodRatio 200 100 100) (calcPeriodRatio 100 100 100)"
proof -
  have f: "float_of_ulong 86300 = Finite 86300" "float_of_ulong 86350 = Finite 86350"
    "float_of_ulong 50 = Finite 50" "float_of_ulong 100 = Finite 100"
    using float_of_ulong_exact [of 86300] float_of_ulong_exact [of 86350]
      float_of_ulong_exact [of 50] float_of_ulong_exact [of 100] by simp_all
  have r: "round32 (86300 / 86350) = Finite (16767501 / 16777216)"
    "round32 (50 / 100) = Finite (1 / 2)"
    by code_simp+
  have a: "calcPeriodRatio 50 150 100 = Finite (16767501 / 16777216)"
    using r by (simp add: calcPeriodRatio_def f)
  have b: "calcPeriodRatio 200 150 100 = Finite (1 / 2)"
    using r by (simp add: calcPeriodRatio_def f)
  have g: "round32 16777216 = Finite 16777216" "round32 16777217 = Finite 16777216"
    "round32 16777218 = Finite 16777218" "round32 (16777216 / 16777218) = Finite (8388607 / 8388608)"
    by code_simp+
  have c: "calcPeriodRatio 16778217 1001 1000 = Finite 1"
    using g round32_of_int [of 1] by (simp add: calcPeriodRatio_def float_of_ulong_def)
  have d: "calcPeriodRatio 16778218 1001 1000 = Finite (8388607 / 8388608)"
    using g by (simp add: calcPeriodRatio_def float_of_ulong_def)
  have e: "calcPeriodRatio 100 100 100 = NaN"
    by (simp add: calcPeriodRatio_def float_of_ulong_zero)
  have h: "calcPeriodRatio 200 100 100 = Finite 1"
    using round32_of_int [of 1] by (simp add: calcPeriodRatio_def f)
  show ?thesis by (simp add: a b c d e h)
qed

text \<open>
  Claim C6 as the code has it: the ratio is non-decreasing in \<open>now\<close> when no
  wrap adjustment applies (\<open>periodStart \<le> onStart \<le> now1 \<le> now2\<close>), the period
  has begun (\<open>periodStart < now1\<close>, so the denominator is not zero) and the
  elapsed period stays below \<open>2^24\<close> seconds, where the conversions to
  \<^verbatim>\<open>float\<close> are exact.
\<close>

theorem calcPeriodRatio_monotone:
  assumes "periodT \<le> onT" and "onT \<le> now1" and "now1 \<le> now2" and "periodT < now1"
    and "unat now2 - unat periodT < 2 ^ 24"
  shows "fge (calcPeriodRatio now2 onT periodT) (calcPeriodRatio now1 onT periodT)"
proof -
  have le: "unat periodT \<le> unat onT" "unat onT \<le> unat now1" "unat now1 \<le> unat now2"
    using assms(1,2,3) by (simp_all add: word_le_nat_alt)
  have lt: "unat periodT < unat now1" using assms(4) by (simp add: word_less_nat_alt)
  have s1: "unat now1 - unat periodT < 2 ^ 24" using assms(5) le by simp
  have o2: "onT \<le> now2" and p2: "periodT < now2" using assms by simp_all
  have r1: "calcPeriodRatio now1 onT periodT =
      round32 (of_nat (unat now1 - unat onT) / of_nat (unat now1 - unat periodT))"
    by (rule ratio_exact [OF assms(1,2,4) s1])
  have r2: "calcPeriodRatio now2 onT periodT =
      round32 (of_nat (unat now2 - unat onT) / of_nat (unat now2 - unat periodT))"
    by (rule ratio_exact [OF assms(1) o2 p2 assms(5)])
  have nonneg: "(0::rat) \<le> of_nat (unat now1 - unat onT) / of_nat (unat now1 - unat periodT)"
    by simp
  show ?thesis unfolding r1 r2
    by (rule round32_mono [OF nonneg occupancy_mono [OF le lt]])
qed

theorem calcPeriodRatio_monotone_witness:
  "(1000 :: 32 word) \<le> 1100 \<and> (1100 :: 32 word) \<le> 1200 \<and> (1200 :: 32 word) \<le> 1500
   \<and> fge (calcPeriodRatio 1500 1100 1000) (calcPeriodRatio 1200 1100 1000)"
  using calcPeriodRatio_monotone [of 1000 1100 1200 1500] by simp

subsection \<open>Claims about the moving average\<close>

lemma sint_succ16:
  fixes c :: "16 word"
  assumes "sint c < 64"
  shows "sint (c + 1) = sint c + 1"
proof -
  have "- (2 ^ 15) \<le> sint c" using sint_ge [of c] by simp
  with assms have "- (2 ^ 15) \<le> sint c + 1" and "sint c + 1 < 2 ^ 15" by simp_all
  then have "signed_take_bit 15 (sint c + 1) = sint c + 1"
    by (simp add: signed_take_bit_int_eq_self)
  then show ?thesis by (simp add: sint_word_ariths)
qed

lemma sint_pred16:
  fixes c :: "16 word"
  assumes "- (2 ^ 15) < sint c"
  shows "sint (c - 1) = sint c - 1"
proof -
  have "sint c < 2 ^ 15" using sint_lt [of c] by simp
  with assms have "- (2 ^ 15) \<le> sint c - 1" and "sint c - 1 < 2 ^ 15" by simp_all
  then have "signed_take_bit 15 (sint c - 1) = sint c - 1"
    by (simp add: signed_take_bit_int_eq_self)
  then show ?thesis by (simp add: sint_word_ariths)
qed

lemma sint_maxN: "sint maxN = 64"
  by (simp add: maxN_def)

lemma calcMovingAverage_count:
  "sint (snd (calcMovingAverage mA Xi count)) =
     (if sint count < 64 then sint count + 1 else sint count)"
  by (simp add: calcMovingAverage_def Let_def sint_maxN sint_succ16)

text \<open>
  Claim C5 says that for every count the function leaves the count at
  \<open>min (count + 1) 64\<close>. The code only refrains from incrementing a count that
  is not below 64; it never lowers one: called with the count 100 it leaves
  100, where the claim says 64.
\<close>

theorem calcMovingAverage_cap_counterexample:
  "sint (snd (calcMovingAverage (Finite 0) (Finite 1) 100)) = 100
   \<and> min (sint (100 :: 16 word) + 1) 64 = 64"
  by (simp add: calcMovingAverage_def Let_def sint_maxN)

text \<open>
  Claim C5 as the code has it: for every average, every sample and every count
  of at most 64, the function leaves the count \<open>newCount = min (count + 1) 64\<close>
  and returns \<open>(average * (newCount - 1) + sample) / newCount\<close> in binary32
  arithmetic (a count above 64 is left as it is).
\<close>

theorem calcMovingAverage_formula:
  assumes "sint count \<le> 64"
  shows "sint (snd (calcMovingAverage mA Xi count)) = min (sint count + 1) 64
    \<and> fst (calcMovingAverage mA Xi count) =
        fdiv (fadd (fmul mA (Finite (of_int (min (sint count + 1) 64 - 1)))) Xi)
             (Finite (of_int (min (sint count + 1) 64)))"
proof -
  define n where "n = snd (calcMovingAverage mA Xi count)"
  have n: "sint n = min (sint count + 1) 64"
    using assms by (simp add: n_def calcMovingAverage_count)
  have "- (2 ^ 15) \<le> sint count" using sint_ge [of count] by simp
  with n have "- (2 ^ 15) < sint n" by simp
  then have p: "sint (n - 1) = sint n - 1" by (rule sint_pred16)
  have d: "fst (calcMovingAverage mA Xi count) =
          fdiv (fadd (fmul mA (float_of_int16 (n - 1))) Xi) (float_of_int16 n)"
    by (simp add: n_def calcMovingAverage_def Let_def)
  have e1: "float_of_int16 (n - 1) = Finite (of_int (min (sint count + 1) 64 - 1))"
    by (simp only: float_of_int16_exact p n)
  have e2: "float_of_int16 n = Finite (of_int (min (sint count + 1) 64))"
    by (simp only: float_of_int16_exact n)
  show ?thesis unfolding n_def [symmetric] by (simp only: n d e1 e2)
qed

theorem calcMovingAverage_formula_witness:
  "sint (snd (calcMovingAverage (Finite (1 / 2)) (Finite 1) 64)) = 64
   \<and> fst (calcMovingAverage (Finite (1 / 2)) (Finite 1) 64) =
       fdiv (fadd (fmul (Finite (1 / 2)) (Finite 63)) (Finite 1)) (Finite 64)
   \<and> sint (snd (calcMovingAverage (Finite 0) (Finite 1) 0)) = 1
   \<and> fst (calcMovingAverage (Finite 0) (Finite 1) 0) = Finite 1"
proof -
  have r: "round32 0 = Finite 0" "round32 1 = Finite 1"
    using round32_of_int [of 0] round32_of_int [of 1] by simp_all
  show ?thesis
    using calcMovingAverage_formula [of 64 "Finite (1 / 2)" "Finite 1"]
          calcMovingAverage_formula [of 0 "Finite 0" "Finite 1"]
    by (simp add: r)
qed

text \<open>
  Claim C10: called with a count between 0 and 64, the function leaves a count
  between 1 and 64 that is not smaller than before, and this count is the
  divisor of the division that yields the result, so the divisor is not zero.
\<close>

theorem calcMovingAverage_denominator:
  assumes "0 \<le> sint count" and "sint count \<le> 64"
  shows "1 \<le> sint (snd (calcMovingAverage mA Xi count))
    \<and> sint (snd (calcMovingAverage mA Xi count)) \<le> 64
    \<and> sint count \<le> sint (snd (calcMovingAverage mA Xi count))
    \<and> (\<exists>num. fst (calcMovingAverage mA Xi count) =
                 fdiv num (float_of_int16 (snd (calcMovingAverage mA Xi count))))
    \<and> float_of_int16 (snd (calcMovingAverage mA Xi count)) \<noteq> Finite 0"
proof -
  define n where "n = snd (calcMovingAverage mA Xi count)"
  have n: "sint n = (if sint count < 64 then sint count + 1 else sint count)"
    by (simp add: n_def calcMovingAverage_count)
  have d: "fst (calcMovingAverage mA Xi count) =
          fdiv (fadd (fmul mA (float_of_int16 (n - 1))) Xi) (float_of_int16 n)"
    by (simp add: n_def calcMovingAverage_def Let_def)
  have "sint n \<noteq> 0" using n assms by (auto split: if_splits)
  then have "(of_int (sint n) :: rat) \<noteq> 0" by (simp only: of_int_eq_0_iff not_False_eq_True)
  then have nz: "float_of_int16 n \<noteq> Finite 0"
    by (simp only: float_of_int16_exact float32.inject not_False_eq_True)
  from n assms d nz show ?thesis unfolding n_def [symmetric] by auto
qed

theorem calcMovingAverage_denominator_witness:
  "sint (snd (calcMovingAverage (Finite 0) (Finite 1) 0)) = 1
   \<and> float_of_int16 (snd (calcMovingAverage (Finite 0) (Finite 1) 0)) \<noteq> Finite 0
   \<and> sint (snd (calcMovingAverage (Finite 0) (Finite 1) 64)) = 64"
  using calcMovingAverage_denominator [of 0 "Finite 0" "Finite 1"]
        calcMovingAverage_denominator [of 64 "Finite 0" "Finite 1"]
  by (simp add: calcMovingAverage_count)

subsection \<open>Claims about the run-state machine\<close>

lemma flt_asym: "flt a b \<Longrightarrow> \<not> flt b a"
  by (cases a; cases b) simp_all

lemma round32_1: "round32 1 = Finite 1"
  using round32_of_int [of 1] by simp

lemma ratio_full:
  assumes "p < t" and "unat t - unat p < 2 ^ 24"
  shows "calcPeriodRatio t p p = Finite 1"
proof -
  have "p \<le> t" using assms(1) by simp
  then have r: "calcPeriodRatio t p p =
      round32 (of_nat (unat t - unat p) / of_nat (unat t - unat p))"
    using assms by (intro ratio_exact) simp_all
  have "unat p < unat t" using assms(1) by (simp add: word_less_nat_alt)
  then have "unat t - unat p \<noteq> 0" by simp
  then have "(of_nat (unat t - unat p) :: rat) \<noteq> 0"
    by (simp only: of_nat_eq_0_iff not_False_eq_True)
  then have "(of_nat (unat t - unat p) :: rat) / of_nat (unat t - unat p) = 1"
    by (rule divide_self)
  with r show ?thesis by (simp only: round32_1)
qed

text \<open>
  Claim C1 says that a running fan whose ratio exceeds the target, with
  adjustment enabled and no off-request, moves to \<open>RunningAdjusting\<close>. The
  sketch assigns \<open>notRunningAdjusting\<close> there. After \<^verbatim>\<open>setup()\<close> with all
  inputs closed, a first cycle at time 1000 and a second at time 2000 (target
  25 percent, adjustment enabled) find the ratio 1.0 and leave the state
  \<open>notRunningAdjusting\<close>.
\<close>


theorem running_ratio_exceeded_counterexample:
  "runState (fst (loop \<lparr>unixtime = 1000, bedroomSensorInput = LOW, officeSensorInput = LOW,
       kitchenSensorInput = LOW, furnaceSensorInput = LOW,
       desiredRatio = Finite (1 / 4), adjustmentEnabled = True\<rparr> (setup_sketch LOW LOW LOW LOW))) = Running
   \<and> fgt (calcPeriodRatio 2000 1000 1000) (Finite (1 / 4))
   \<and> runState (fst (loop \<lparr>unixtime = 2000, bedroomSensorInput = LOW, officeSensorInput = LOW,
       kitchenSensorInput = LOW, furnaceSensorInput = LOW,
       desiredRatio = Finite (1 / 4), adjustmentEnabled = True\<rparr>
      (fst (loop \<lparr>unixtime = 1000, bedroomSensorInput = LOW, officeSensorInput = LOW,
       kitchenSensorInput = LOW, furnaceSensorInput = LOW,
       desiredRatio = Finite (1 / 4), adjustmentEnabled = True\<rparr> (setup_sketch LOW LOW LOW LOW)))))
     = notRunningAdjusting"
proof -
  have a: "calcPeriodRatio 1000 1000 1000 = NaN"
    by (simp add: calcPeriodRatio_def float_of_ulong_zero)
  have b: "calcPeriodRatio 2000 1000 1000 = Finite 1"
    by (rule ratio_full) simp_all
  show ?thesis
    by (simp add: loop_def loop_clock_def loop_sensors_def loop_switch_def setup_sketch_def
        doorDelay_def fgt_def Let_def a b)
qed

text \<open>
  Claim C1 as the code has it: in state \<open>Running\<close>, with adjustment enabled,
  the fresh ratio above the target and no off-request, the cycle moves to
  \<open>notRunningAdjusting\<close>; it writes nothing to the relay in that cycle, and
  the next cycle, whatever its inputs, switches the relay off (\<open>HIGH\<close>).
\<close>

theorem running_ratio_exceeded:
  assumes "runState s = Running" and "adjustmentEnabled i"
    and "fgt (calcPeriodRatio (currentTime s) (onPeriodStart s) (totPeriodStart s)) (desiredRatio i)"
    and "\<not> (SSbedroom s \<or> SSoffice s \<or> SSfurnace s \<or> (SSkitchen s \<and> doorComplete s < currentTime s))"
  shows "loop_switch i s =
           (s\<lparr>actualRatio := calcPeriodRatio (currentTime s) (onPeriodStart s) (totPeriodStart s),
              runState := notRunningAdjusting\<rparr>, [])
         \<and> (\<forall>i'. snd (loop i' (fst (loop_switch i s))) = [HIGH]
                \<and> relayControlPin (fst (loop i' (fst (loop_switch i s)))) = HIGH)"
proof -
  have 1: "loop_switch i s =
           (s\<lparr>actualRatio := calcPeriodRatio (currentTime s) (onPeriodStart s) (totPeriodStart s),
              runState := notRunningAdjusting\<rparr>, [])"
    using assms by (auto simp add: loop_switch_def Let_def)
  have 2: "snd (loop i' s') = [HIGH] \<and> relayControlPin (fst (loop i' s')) = HIGH"
    if "runState s' = notRunningAdjusting" for i' s'
    using that
    by (simp add: loop_def loop_switch_def loop_sensors_def loop_clock_def Let_def split_beta)
  show ?thesis unfolding 1 by (simp add: 2)
qed


theorem running_ratio_exceeded_witness:
  "fgt (calcPeriodRatio 2000 1000 1000) (Finite (1 / 4))
   \<and> runState (fst (loop_switch
        \<lparr>unixtime = 2000, bedroomSensorInput = LOW, officeSensorInput = LOW,
         kitchenSensorInput = LOW, furnaceSensorInput = LOW,
         desiredRatio = Finite (1 / 4), adjustmentEnabled = True\<rparr>
        ((setup_sketch LOW LOW LOW LOW)
           \<lparr>currentTime := 2000, onPeriodStart := 1000, totPeriodStart := 1000\<rparr>)))
       = notRunningAdjusting
   \<and> snd (loop_switch
        \<lparr>unixtime = 2000, bedroomSensorInput = LOW, officeSensorInput = LOW,
         kitchenSensorInput = LOW, furnaceSensorInput = LOW,
         desiredRatio = Finite (1 / 4), adjustmentEnabled = True\<rparr>
        ((setup_sketch LOW LOW LOW LOW)
           \<lparr>currentTime := 2000, onPeriodStart := 1000, totPeriodStart := 1000\<rparr>)) = []"
proof -
  have b: "calcPeriodRatio 2000 1000 1000 = Finite 1"
    by (rule ratio_full) simp_all
  show ?thesis
    using running_ratio_exceeded [of
        "(setup_sketch LOW LOW LOW LOW)
           \<lparr>currentTime := 2000, onPeriodStart := 1000, totPeriodStart := 1000\<rparr>"
        "\<lparr>unixtime = 2000, bedroomSensorInput = LOW, officeSensorInput = LOW,
         kitchenSensorInput = LOW, furnaceSensorInput = LOW,
         desiredRatio = Finite (1 / 4), adjustmentEnabled = True\<rparr>"]
    by (simp add: setup_sketch_def fgt_def b)
qed

text \<open>
  Claim C2 says that the off path is taken exactly when one of the four
  signals is asserted and the door delay has elapsed as well. In the sketch the
  time test belongs to the door signal only. After \<^verbatim>\<open>setup()\<close>, the door
  opens at 1010 and closes at 1020, which moves the deadline to 1140; at 1030
  the bedroom window opens and the fan is stopped at once, 110 seconds before
  the deadline.
\<close>


theorem off_condition_counterexample:
  "map (\<lambda>s. (runState s, SSbedroom s, SSkitchen s, currentTime s, doorComplete s))
     (run_cycles (setup_sketch LOW LOW LOW LOW)
        [\<lparr>unixtime = 1000, bedroomSensorInput = LOW, officeSensorInput = LOW,
          kitchenSensorInput = LOW, furnaceSensorInput = LOW,
          desiredRatio = Finite (1 / 4), adjustmentEnabled = False\<rparr>,
         \<lparr>unixtime = 1010, bedroomSensorInput = LOW, officeSensorInput = LOW,
          kitchenSensorInput = HIGH, furnaceSensorInput = LOW,
          desiredRatio = Finite (1 / 4), adjustmentEnabled = False\<rparr>,
         \<lparr>unixtime = 1020, bedroomSensorInput = LOW, officeSensorInput = LOW,
          kitchenSensorInput = LOW, furnaceSensorInput = LOW,
          desiredRatio = Finite (1 / 4), adjustmentEnabled = False\<rparr>,
         \<lparr>unixtime = 1030, bedroomSensorInput = HIGH, officeSensorInput = LOW,
          kitchenSensorInput = LOW, furnaceSensorInput = LOW,
          desiredRatio = Finite (1 / 4), adjustmentEnabled = False\<rparr>])
   = [(Running, False, False, 1000, 0), (Running, False, True, 1010, 1130),
      (Running, False, False, 1020, 1140), (notRunning, True, False, 1030, 1140)]
   \<and> \<not> (1140 :: 32 word) < 1030"
proof -
  have a: "calcPeriodRatio 1000 1000 1000 = NaN"
    by (simp add: calcPeriodRatio_def float_of_ulong_zero)
  have b: "calcPeriodRatio 1010 1000 1000 = Finite 1" "calcPeriodRatio 1020 1000 1000 = Finite 1"
    "calcPeriodRatio 1030 1000 1000 = Finite 1"
    by (rule ratio_full; simp)+
  show ?thesis
    by (simp add: loop_def loop_clock_def loop_sensors_def loop_switch_def setup_sketch_def
        doorDelay_def fgt_def Let_def split_beta a b)
qed

text \<open>
  Claim C2 as the code has it: in the states \<open>Running\<close> and
  \<open>notRunningAdjusting\<close> the off path is taken exactly when the bedroom, the
  office or the furnace signal is asserted, or the door signal is asserted and
  the door delay has elapsed (\<open>currentTime > doorComplete\<close>). From
  \<open>Running\<close> the off path ends in \<open>RunningAdjusting\<close> or \<open>notRunning\<close>,
  from \<open>notRunningAdjusting\<close> in \<open>notRunning\<close>.
\<close>

theorem off_condition:
  "(runState s = Running \<longrightarrow>
      ((runState (fst (loop_switch i s)) = RunningAdjusting
        \<or> runState (fst (loop_switch i s)) = notRunning)
       \<longleftrightarrow> (SSbedroom s \<or> SSoffice s \<or> SSfurnace s
            \<or> (SSkitchen s \<and> doorComplete s < currentTime s))))
   \<and> (runState s = notRunningAdjusting \<longrightarrow>
      (runState (fst (loop_switch i s)) = notRunning
       \<longleftrightarrow> (SSbedroom s \<or> SSoffice s \<or> SSfurnace s
            \<or> (SSkitchen s \<and> doorComplete s < currentTime s))))"
  by (auto simp add: loop_switch_def Let_def split_beta)

theorem off_condition_witness:
  "(runState (fst (loop_switch
        \<lparr>unixtime = 1030, bedroomSensorInput = HIGH, officeSensorInput = LOW,
         kitchenSensorInput = LOW, furnaceSensorInput = LOW,
         desiredRatio = Finite (1 / 4), adjustmentEnabled = False\<rparr>
        ((setup_sketch LOW LOW LOW LOW)
           \<lparr>currentTime := 1030, doorComplete := 1140, SSbedroom := True\<rparr>))) = RunningAdjusting
    \<or> runState (fst (loop_switch
        \<lparr>unixtime = 1030, bedroomSensorInput = HIGH, officeSensorInput = LOW,
         kitchenSensorInput = LOW, furnaceSensorInput = LOW,
         desiredRatio = Finite (1 / 4), adjustmentEnabled = False\<rparr>
        ((setup_sketch LOW LOW LOW LOW)
           \<lparr>currentTime := 1030, doorComplete := 1140, SSbedroom := True\<rparr>))) = notRunning)
   \<and> runState (fst (loop_switch
        \<lparr>unixtime = 1030, bedroomSensorInput = LOW, officeSensorInput = LOW,
         kitchenSensorInput = HIGH, furnaceSensorInput = LOW,
         desiredRatio = Finite (1 / 4), adjustmentEnabled = False\<rparr>
        ((setup_sketch LOW LOW LOW LOW)
           \<lparr>currentTime := 1030, doorComplete := 1140, SSkitchen := True,
            runState := notRunningAdjusting\<rparr>))) \<noteq> notRunning"
  using off_condition [of
      "(setup_sketch LOW LOW LOW LOW)
           \<lparr>currentTime := 1030, doorComplete := 1140, SSbedroom := True\<rparr>"
      "\<lparr>unixtime = 1030, bedroomSensorInput = HIGH, officeSensorInput = LOW,
         kitchenSensorInput = LOW, furnaceSensorInput = LOW,
         desiredRatio = Finite (1 / 4), adjustmentEnabled = False\<rparr>"]
    off_condition [of
      "(setup_sketch LOW LOW LOW LOW)
           \<lparr>currentTime := 1030, doorComplete := 1140, SSkitchen := True,
            runState := notRunningAdjusting\<rparr>"
      "\<lparr>unixtime = 1030, bedroomSensorInput = LOW, officeSensorInput = LOW,
         kitchenSensorInput = HIGH, furnaceSensorInput = LOW,
         desiredRatio = Finite (1 / 4), adjustmentEnabled = False\<rparr>"]
  by (simp add: setup_sketch_def)

text \<open>
  Claim C7 says that every cycle writes the relay pin exactly once. The first
  cycle after \<^verbatim>\<open>setup()\<close> with all inputs closed keeps the fan running and
  writes nothing.
\<close>


theorem relay_write_counterexample:
  "snd (loop \<lparr>unixtime = 1000, bedroomSensorInput = LOW, officeSensorInput = LOW,
          kitchenSensorInput = LOW, furnaceSensorInput = LOW,
          desiredRatio = Finite (1 / 4), adjustmentEnabled = False\<rparr>
        (setup_sketch LOW LOW LOW LOW)) = []"
  by (simp add: loop_def loop_clock_def loop_sensors_def loop_switch_def setup_sketch_def
        doorDelay_def fgt_def Let_def split_beta)

lemma runState_pre: "runState (loop_sensors i (loop_clock i s)) = runState s"
  by (simp add: loop_sensors_def loop_clock_def Let_def)

lemma relay_writes_switch:
  "length (snd (loop_switch i s)) \<le> 1
   \<and> (snd (loop_switch i s) = [] \<longleftrightarrow>
        (runState s = Running \<and> runState (fst (loop_switch i s)) \<noteq> notRunning)
        \<or> (runState s = notRunning \<and> runState (fst (loop_switch i s)) = notRunning)
        \<or> (runState s = RunningAdjusting \<and> runState (fst (loop_switch i s)) = RunningAdjusting))
   \<and> (snd (loop_switch i s) = [] \<or>
        snd (loop_switch i s) = [relayControlPin (fst (loop_switch i s))]
        \<and> (relayControlPin (fst (loop_switch i s)) = LOW
            \<longleftrightarrow> runState (fst (loop_switch i s)) = Running))"
  by (cases "runState s") (auto simp add: loop_switch_def Let_def split_beta)

text \<open>
  Claim C7 as the code has it: a cycle writes the relay pin at most once. It
  writes nothing when it starts in \<open>Running\<close> and does not end in
  \<open>notRunning\<close>, or starts and ends in \<open>notRunning\<close>, or starts and ends in
  \<open>RunningAdjusting\<close>; in every other cycle it writes once, the written
  level is the one the pin then has, and it is \<open>LOW\<close> exactly when the
  decided state is \<open>Running\<close>.
\<close>

theorem relay_writes:
  "length (snd (loop i s)) \<le> 1
   \<and> (snd (loop i s) = [] \<longleftrightarrow>
        (runState s = Running \<and> runState (fst (loop i s)) \<noteq> notRunning)
        \<or> (runState s = notRunning \<and> runState (fst (loop i s)) = notRunning)
        \<or> (runState s = RunningAdjusting \<and> runState (fst (loop i s)) = RunningAdjusting))
   \<and> (snd (loop i s) = [] \<or>
        snd (loop i s) = [relayControlPin (fst (loop i s))]
        \<and> (relayControlPin (fst (loop i s)) = LOW \<longleftrightarrow> runState (fst (loop i s)) = Running))"
  using relay_writes_switch [of i "loop_sensors i (loop_clock i s)"]
  unfolding loop_def runState_pre .

theorem relay_writes_witness:
  "snd (loop \<lparr>unixtime = 1000, bedroomSensorInput = LOW, officeSensorInput = LOW,
          kitchenSensorInput = LOW, furnaceSensorInput = LOW,
          desiredRatio = Finite (1 / 4), adjustmentEnabled = False\<rparr>
        (setup_sketch HIGH LOW LOW LOW)) = [LOW]
   \<and> runState (fst (loop \<lparr>unixtime = 1000, bedroomSensorInput = LOW, officeSensorInput = LOW,
          kitchenSensorInput = LOW, furnaceSensorInput = LOW,
          desiredRatio = Finite (1 / 4), adjustmentEnabled = False\<rparr>
        (setup_sketch HIGH LOW LOW LOW))) = Running"
proof -
  have "runState (fst (loop \<lparr>unixtime = 1000, bedroomSensorInput = LOW, officeSensorInput = LOW,
          kitchenSensorInput = LOW, furnaceSensorInput = LOW,
          desiredRatio = Finite (1 / 4), adjustmentEnabled = False\<rparr>
        (setup_sketch HIGH LOW LOW LOW))) = Running"
    by (simp add: loop_def loop_clock_def loop_sensors_def loop_switch_def setup_sketch_def
        doorDelay_def Let_def)
  moreover have "relayControlPin (fst (loop \<lparr>unixtime = 1000, bedroomSensorInput = LOW,
          officeSensorInput = LOW,
          kitchenSensorInput = LOW, furnaceSensorInput = LOW,
          desiredRatio = Finite (1 / 4), adjustmentEnabled = False\<rparr>
        (setup_sketch HIGH LOW LOW LOW))) = LOW"
    by (simp add: loop_def loop_clock_def loop_sensors_def loop_switch_def setup_sketch_def
        doorDelay_def Let_def)
  moreover have "runState (setup_sketch HIGH LOW LOW LOW) = notRunning"
    by (simp add: setup_sketch_def)
  ultimately show ?thesis
    using relay_writes [of "\<lparr>unixtime = 1000, bedroomSensorInput = LOW, officeSensorInput = LOW,
          kitchenSensorInput = LOW, furnaceSensorInput = LOW,
          desiredRatio = Finite (1 / 4), adjustmentEnabled = False\<rparr>"
        "setup_sketch HIGH LOW LOW LOW"]
    by auto
qed

subsection \<open>The door delay over a run of cycles\<close>

lemma loop_switch_frame:
  "currentTime (fst (loop_switch i s)) = currentTime s"
  "SSkitchen (fst (loop_switch i s)) = SSkitchen s"
  "doorComplete (fst (loop_switch i s)) = doorComplete s"
  "SSbedroom (fst (loop_switch i s)) = SSbedroom s"
  "SSoffice (fst (loop_switch i s)) = SSoffice s"
  "SSfurnace (fst (loop_switch i s)) = SSfurnace s"
  by (cases "runState s"; simp add: loop_switch_def Let_def split_beta)+

lemma loop_door:
  "currentTime (fst (loop i s)) = unixtime i"
  "SSkitchen (fst (loop i s)) = (kitchenSensorInput i \<noteq> LOW)"
  "doorComplete (fst (loop i s)) =
     (if (kitchenSensorInput i \<noteq> LOW) \<noteq> SSkitchen s then unixtime i + doorDelay
      else doorComplete s)"
  by (simp_all add: loop_def loop_switch_frame loop_sensors_def loop_clock_def Let_def)

text \<open>While the door reads open, the deadline lies at least 120 seconds after \<open>t0\<close>.\<close>

lemma door_deadline_step:
  fixes t0 :: "32 word"
  assumes inv: "SSkitchen s \<longrightarrow> unat t0 + 120 \<le> unat (doorComplete s)"
    and win: "kitchenSensorInput i \<noteq> LOW \<longrightarrow>
                unat t0 \<le> unat (unixtime i) \<and> unat (unixtime i) \<le> unat t0 + 60"
    and rng: "unat t0 + 180 < 2 ^ 32"
  shows "(SSkitchen (fst (loop i s)) \<longrightarrow> unat t0 + 120 \<le> unat (doorComplete (fst (loop i s))))
    \<and> \<not> (SSkitchen (fst (loop i s))
          \<and> doorComplete (fst (loop i s)) < currentTime (fst (loop i s)))"
proof (cases "kitchenSensorInput i = LOW")
  case True
  then show ?thesis by (simp add: loop_door)
next
  case False
  with win have t: "unat t0 \<le> unat (unixtime i)" "unat (unixtime i) \<le> unat t0 + 60" by simp_all
  have "unat (unixtime i) + unat (120 :: 32 word) < 2 ^ LENGTH(32)" using t rng by simp
  then have "unat (unixtime i + 120) = unat (unixtime i) + unat (120 :: 32 word)"
    by (simp only: unat_add_lem)
  then have add: "unat (unixtime i + doorDelay) = unat (unixtime i) + 120"
    by (simp add: doorDelay_def)
  have d: "unat t0 + 120 \<le> unat (doorComplete (fst (loop i s)))"
    using False inv t add by (simp add: loop_door)
  then have "\<not> doorComplete (fst (loop i s)) < currentTime (fst (loop i s))"
    using t by (simp add: word_less_nat_alt loop_door(1))
  with d show ?thesis by simp
qed

lemma no_off_path:
  assumes "runState s = Running \<or> runState s = notRunningAdjusting"
    and "bedroomSensorInput i = LOW" and "officeSensorInput i = LOW"
    and "furnaceSensorInput i = LOW"
    and "\<not> (SSkitchen (fst (loop i s))
            \<and> doorComplete (fst (loop i s)) < currentTime (fst (loop i s)))"
  shows "runState (fst (loop i s)) = Running \<or> runState (fst (loop i s)) = notRunningAdjusting"
proof -
  define p where "p = loop_sensors i (loop_clock i s)"
  have l: "loop i s = loop_switch i p" by (simp add: loop_def p_def)
  have r: "runState p = Running \<or> runState p = notRunningAdjusting"
    using assms(1) by (simp add: p_def loop_sensors_def loop_clock_def Let_def)
  have q: "\<not> SSbedroom p" "\<not> SSoffice p" "\<not> SSfurnace p"
    using assms(2,3,4) by (simp_all add: p_def loop_sensors_def loop_clock_def Let_def)
  have d: "\<not> (SSkitchen p \<and> doorComplete p < currentTime p)"
    using assms(5) by (simp add: l loop_switch_frame)
  from r q d show ?thesis unfolding l
    by (auto simp add: loop_switch_def Let_def split_beta)
qed

text \<open>
  Claim C9: the door opens and is closed again within 60 seconds, with the door
  delay at 120 seconds. Let the door be closed before the run, let every cycle
  that reads the door open fall between \<open>t0\<close> and \<open>t0 + 60\<close>, and let the
  clock stay clear of the end of the 32-bit range. Then in no cycle of the
  run, during or after the opening, does the door's part of the off-condition
  (\<^verbatim>\<open>SSkitchen && currentTime > doorComplete\<close>) hold; and a cycle that starts
  in \<open>Running\<close> or \<open>notRunningAdjusting\<close> with the three other inputs
  closed does not take the off path.
\<close>


theorem brief_door_opening:
  fixes t0 :: "32 word"
  assumes "\<not> SSkitchen s"
    and "\<forall>i \<in> set ins. kitchenSensorInput i \<noteq> LOW \<longrightarrow>
           unat t0 \<le> unat (unixtime i) \<and> unat (unixtime i) \<le> unat t0 + 60"
    and "unat t0 + 180 < 2 ^ 32"
  shows "(\<forall>s' \<in> set (run_cycles s ins).
            \<not> (SSkitchen s' \<and> doorComplete s' < currentTime s'))
    \<and> (\<forall>k < length ins.
          (runState ((s # run_cycles s ins) ! k) = Running
           \<or> runState ((s # run_cycles s ins) ! k) = notRunningAdjusting) \<longrightarrow>
          bedroomSensorInput (ins ! k) = LOW \<longrightarrow> officeSensorInput (ins ! k) = LOW \<longrightarrow>
          furnaceSensorInput (ins ! k) = LOW \<longrightarrow>
          (runState (run_cycles s ins ! k) = Running
           \<or> runState (run_cycles s ins ! k) = notRunningAdjusting))"
proof -
  have gen: "(\<forall>s' \<in> set (run_cycles s ins).
            \<not> (SSkitchen s' \<and> doorComplete s' < currentTime s'))
    \<and> (\<forall>k < length ins.
          (runState ((s # run_cycles s ins) ! k) = Running
           \<or> runState ((s # run_cycles s ins) ! k) = notRunningAdjusting) \<longrightarrow>
          bedroomSensorInput (ins ! k) = LOW \<longrightarrow> officeSensorInput (ins ! k) = LOW \<longrightarrow>
          furnaceSensorInput (ins ! k) = LOW \<longrightarrow>
          (runState (run_cycles s ins ! k) = Running
           \<or> runState (run_cycles s ins ! k) = notRunningAdjusting))"
    if "SSkitchen s \<longrightarrow> unat t0 + 120 \<le> unat (doorComplete s)"
      and "\<forall>i \<in> set ins. kitchenSensorInput i \<noteq> LOW \<longrightarrow>
             unat t0 \<le> unat (unixtime i) \<and> unat (unixtime i) \<le> unat t0 + 60"
    for s
    using that
  proof (induction ins arbitrary: s)
    case Nil
    then show ?case by simp
  next
    case (Cons i ins)
    define s1 where "s1 = fst (loop i s)"
    from Cons.prems(2) have win: "kitchenSensorInput i \<noteq> LOW \<longrightarrow>
        unat t0 \<le> unat (unixtime i) \<and> unat (unixtime i) \<le> unat t0 + 60"
      and rest: "\<forall>i \<in> set ins. kitchenSensorInput i \<noteq> LOW \<longrightarrow>
             unat t0 \<le> unat (unixtime i) \<and> unat (unixtime i) \<le> unat t0 + 60"
      by simp_all
    from door_deadline_step [OF Cons.prems(1) win assms(3)]
    have inv': "SSkitchen s1 \<longrightarrow> unat t0 + 120 \<le> unat (doorComplete s1)"
      and now: "\<not> (SSkitchen s1 \<and> doorComplete s1 < currentTime s1)"
      unfolding s1_def by blast+
    note IH = Cons.IH [OF inv' rest]
    have A: "\<forall>s' \<in> set (run_cycles s (i # ins)).
            \<not> (SSkitchen s' \<and> doorComplete s' < currentTime s')"
      using IH now by (simp add: s1_def)
    have B: "(runState (run_cycles s (i # ins) ! k) = Running
           \<or> runState (run_cycles s (i # ins) ! k) = notRunningAdjusting)"
      if k: "k < length (i # ins)"
        and pre: "runState ((s # run_cycles s (i # ins)) ! k) = Running
           \<or> runState ((s # run_cycles s (i # ins)) ! k) = notRunningAdjusting"
        and low: "bedroomSensorInput ((i # ins) ! k) = LOW"
          "officeSensorInput ((i # ins) ! k) = LOW" "furnaceSensorInput ((i # ins) ! k) = LOW"
      for k
    proof (cases k)
      case 0
      with pre low now show ?thesis
        using no_off_path [of s i] by (simp add: s1_def)
    next
      case (Suc k')
      with k pre low IH show ?thesis by (auto simp add: s1_def)
    qed
    from A B show ?case by blast
  qed
  show ?thesis by (rule gen) (use assms in simp_all)
qed

theorem brief_door_opening_witness:
  "list_all (\<lambda>s'. \<not> (SSkitchen s' \<and> doorComplete s' < currentTime s'))
     (run_cycles (setup_sketch LOW LOW LOW LOW)
        [\<lparr>unixtime = 1000, bedroomSensorInput = LOW, officeSensorInput = LOW,
          kitchenSensorInput = LOW, furnaceSensorInput = LOW,
          desiredRatio = Finite (1 / 4), adjustmentEnabled = False\<rparr>,
         \<lparr>unixtime = 1010, bedroomSensorInput = LOW, officeSensorInput = LOW,
          kitchenSensorInput = HIGH, furnaceSensorInput = LOW,
          desiredRatio = Finite (1 / 4), adjustmentEnabled = False\<rparr>,
         \<lparr>unixtime = 1069, bedroomSensorInput = LOW, officeSensorInput = LOW,
          kitchenSensorInput = HIGH, furnaceSensorInput = LOW,
          desiredRatio = Finite (1 / 4), adjustmentEnabled = False\<rparr>,
         \<lparr>unixtime = 1070, bedroomSensorInput = LOW, officeSensorInput = LOW,
          kitchenSensorInput = LOW, furnaceSensorInput = LOW,
          desiredRatio = Finite (1 / 4), adjustmentEnabled = False\<rparr>,
         \<lparr>unixtime = 1500, bedroomSensorInput = LOW, officeSensorInput = LOW,
          kitchenSensorInput = LOW, furnaceSensorInput = LOW,
          desiredRatio = Finite (1 / 4), adjustmentEnabled = False\<rparr>])
   \<and> map runState
     (run_cycles (setup_sketch LOW LOW LOW LOW)
        [\<lparr>unixtime = 1000, bedroomSensorInput = LOW, officeSensorInput = LOW,
          kitchenSensorInput = LOW, furnaceSensorInput = LOW,
          desiredRatio = Finite (1 / 4), adjustmentEnabled = False\<rparr>,
         \<lparr>unixtime = 1010, bedroomSensorInput = LOW, officeSensorInput = LOW,
          kitchenSensorInput = HIGH, furnaceSensorInput = LOW,
          desiredRatio = Finite (1 / 4), adjustmentEnabled = False\<rparr>,
         \<lparr>unixtime = 1069, bedroomSensorInput = LOW, officeSensorInput = LOW,
          kitchenSensorInput = HIGH, furnaceSensorInput = LOW,
          desiredRatio = Finite (1 / 4), adjustmentEnabled = False\<rparr>,
         \<lparr>unixtime = 1070, bedroomSensorInput = LOW, officeSensorInput = LOW,
          kitchenSensorInput = LOW, furnaceSensorInput = LOW,
          desiredRatio = Finite (1 / 4), adjustmentEnabled = False\<rparr>,
         \<lparr>unixtime = 1500, bedroomSensorInput = LOW, officeSensorInput = LOW,
          kitchenSensorInput = LOW, furnaceSensorInput = LOW,
          desiredRatio = Finite (1 / 4), adjustmentEnabled = False\<rparr>])
     = [Running, Running, Running, Running, Running]"
proof -
  have a: "calcPeriodRatio 1000 1000 1000 = NaN"
    by (simp add: calcPeriodRatio_def float_of_ulong_zero)
  have b: "calcPeriodRatio 1010 1000 1000 = Finite 1" "calcPeriodRatio 1069 1000 1000 = Finite 1"
    "calcPeriodRatio 1070 1000 1000 = Finite 1" "calcPeriodRatio 1500 1000 1000 = Finite 1"
    by (rule ratio_full; simp)+
  show ?thesis
  proof (rule conjI)
    show "list_all (\<lambda>s'. \<not> (SSkitchen s' \<and> doorComplete s' < currentTime s'))
     (run_cycles (setup_sketch LOW LOW LOW LOW)
        [\<lparr>unixtime = 1000, bedroomSensorInput = LOW, officeSensorInput = LOW,
          kitchenSensorInput = LOW, furnaceSensorInput = LOW,
          desiredRatio = Finite (1 / 4), adjustmentEnabled = False\<rparr>,
         \<lparr>unixtime = 1010, bedroomSensorInput = LOW, officeSensorInput = LOW,
          kitchenSensorInput = HIGH, furnaceSensorInput = LOW,
          desiredRatio = Finite (1 / 4), adjustmentEnabled = False\<rparr>,
         \<lparr>unixtime = 1069, bedroomSensorInput = LOW, officeSensorInput = LOW,
          kitchenSensorInput = HIGH, furnaceSensorInput = LOW,
          desiredRatio = Finite (1 / 4), adjustmentEnabled = False\<rparr>,
         \<lparr>unixtime = 1070, bedroomSensorInput = LOW, officeSensorInput = LOW,
          kitchenSensorInput = LOW, furnaceSensorInput = LOW,
          desiredRatio = Finite (1 / 4), adjustmentEnabled = False\<rparr>,
         \<lparr>unixtime = 1500, bedroomSensorInput = LOW, officeSensorInput = LOW,
          kitchenSensorInput = LOW, furnaceSensorInput = LOW,
          desiredRatio = Finite (1 / 4), adjustmentEnabled = False\<rparr>])"
      unfolding list_all_iff
      by (rule brief_door_opening [where ?t0.0 = "1010 :: 32 word", THEN conjunct1])
        (simp_all add: setup_sketch_def)
  qed (simp add: loop_def loop_clock_def loop_sensors_def loop_switch_def setup_sketch_def
        doorDelay_def fgt_def Let_def split_beta a b)
qed

subsection \<open>The same cycle applied twice\<close>

lemma not_fgt_zero_elapsed:
  assumes "fge d (Finite 0)"
  shows "\<not> fgt (calcPeriodRatio t t p) d"
proof -
  have "\<not> flt d (Finite 0)" using assms by (cases d) simp_all
  moreover have "\<not> flt d NaN" by (cases d) simp_all
  ultimately show ?thesis using calcPeriodRatio_zero_elapsed [of t p] by (auto simp add: fgt_def)
qed

text \<open>After a cycle, reading the same clock and switches again changes nothing.\<close>

lemma pre_fixed:
  assumes "currentTime s = unixtime i"
    and "SSbedroom s = (bedroomSensorInput i \<noteq> LOW)"
    and "SSoffice s = (officeSensorInput i \<noteq> LOW)"
    and "SSkitchen s = (kitchenSensorInput i \<noteq> LOW)"
    and "SSfurnace s = (furnaceSensorInput i \<noteq> LOW)"
    and "totPeriodStart s = 0 \<longrightarrow> unixtime i = 0"
    and "onPeriodStart s = 0 \<and> runState s = Running \<longrightarrow> unixtime i = 0"
  shows "loop_sensors i (loop_clock i s) = s"
proof -
  have c: "loop_clock i s = s"
    using assms(1,7) by (auto simp add: loop_clock_def Let_def)
  have "loop_sensors i s = s"
    using assms(1-6) by (auto simp add: loop_sensors_def Let_def)
  with c show ?thesis by simp
qed

lemma pre_facts:
  "currentTime (loop_sensors i (loop_clock i s)) = unixtime i"
  "SSbedroom (loop_sensors i (loop_clock i s)) = (bedroomSensorInput i \<noteq> LOW)"
  "SSoffice (loop_sensors i (loop_clock i s)) = (officeSensorInput i \<noteq> LOW)"
  "SSkitchen (loop_sensors i (loop_clock i s)) = (kitchenSensorInput i \<noteq> LOW)"
  "SSfurnace (loop_sensors i (loop_clock i s)) = (furnaceSensorInput i \<noteq> LOW)"
  "totPeriodStart (loop_sensors i (loop_clock i s)) = 0 \<longrightarrow> unixtime i = 0"
  "onPeriodStart (loop_sensors i (loop_clock i s)) = 0
     \<and> runState (loop_sensors i (loop_clock i s)) = Running \<longrightarrow> unixtime i = 0"
  by (auto simp add: loop_sensors_def loop_clock_def Let_def)

lemma switch_keeps_starts:
  assumes "totPeriodStart p = 0 \<longrightarrow> currentTime p = 0"
    and "onPeriodStart p = 0 \<and> runState p = Running \<longrightarrow> currentTime p = 0"
  shows "totPeriodStart (fst (loop_switch i p)) = 0 \<longrightarrow> currentTime p = 0"
    and "onPeriodStart (fst (loop_switch i p)) = 0 \<and> runState (fst (loop_switch i p)) = Running
           \<longrightarrow> currentTime p = 0"
  using assms by (cases "runState p"; auto simp add: loop_switch_def Let_def split_beta)+

lemma loop_twice:
  "fst (loop i (fst (loop i s)))
     = fst (loop_switch i (fst (loop_switch i (loop_sensors i (loop_clock i s)))))"
proof -
  define p where "p = loop_sensors i (loop_clock i s)"
  have t: "totPeriodStart p = 0 \<longrightarrow> currentTime p = 0"
    and n: "onPeriodStart p = 0 \<and> runState p = Running \<longrightarrow> currentTime p = 0"
    unfolding p_def using pre_facts [of i s] by simp_all
  have ct: "currentTime p = unixtime i" unfolding p_def by (rule pre_facts)
  have "loop_sensors i (loop_clock i (fst (loop_switch i p))) = fst (loop_switch i p)"
  proof (rule pre_fixed)
    show "totPeriodStart (fst (loop_switch i p)) = 0 \<longrightarrow> unixtime i = 0"
      using switch_keeps_starts(1) [OF t n] ct by simp
    show "onPeriodStart (fst (loop_switch i p)) = 0 \<and> runState (fst (loop_switch i p)) = Running
            \<longrightarrow> unixtime i = 0"
      using switch_keeps_starts(2) [OF t n] ct by simp
  qed (simp_all add: loop_switch_frame p_def pre_facts)
  then show ?thesis by (simp add: loop_def p_def)
qed


lemma switch_twice:
  assumes d: "fge (desiredRatio i) (Finite 0)"
  shows "averageCount (fst (loop_switch i (fst (loop_switch i p))))
           = averageCount (fst (loop_switch i p))
    \<and> movingAverage (fst (loop_switch i (fst (loop_switch i p))))
           = movingAverage (fst (loop_switch i p))
    \<and> (\<not> (runState p = RunningAdjusting \<and> runState (fst (loop_switch i p)) = notRunning) \<longrightarrow>
         runState (fst (loop_switch i (fst (loop_switch i p)))) = runState (fst (loop_switch i p)))
    \<and> (runState (fst (loop_switch i (fst (loop_switch i p)))) = runState (fst (loop_switch i p))
        \<and> \<not> (runState p = Running \<and> runState (fst (loop_switch i p)) = notRunningAdjusting) \<longrightarrow>
         relayControlPin (fst (loop_switch i (fst (loop_switch i p))))
           = relayControlPin (fst (loop_switch i p)))"
proof (cases "runState p")
  case notRunning
  then show ?thesis
    using not_fgt_zero_elapsed [OF d, of "currentTime p" "totPeriodStart p"]
    by (simp add: loop_switch_def Let_def split_beta)
next
  case Running
  then show ?thesis
    using flt_asym [of "calcPeriodRatio (currentTime p) (onPeriodStart p) (totPeriodStart p)"
        "desiredRatio i"]
    by (auto simp add: loop_switch_def Let_def split_beta fgt_def)
next
  case RunningAdjusting
  then show ?thesis
    by (auto simp add: loop_switch_def Let_def split_beta)
next
  case notRunningAdjusting
  then show ?thesis
    by (auto simp add: loop_switch_def Let_def split_beta)
qed

text \<open>
  Claim C8 says that a second application of the cycle to the same input gives
  the run state and relay output of the first. Two runs from \<^verbatim>\<open>setup()\<close>
  show otherwise. In the first, the cycle at time 2000 (ratio 1.0 above the
  target, adjustment enabled) moves \<open>Running\<close> to \<open>notRunningAdjusting\<close>
  with the relay still \<open>LOW\<close>, and the same cycle applied again writes
  \<open>HIGH\<close>. In the second, the cycle at time 2500 (adjustment disabled, all
  inputs closed) moves \<open>RunningAdjusting\<close> to \<open>notRunning\<close>, and the same
  cycle applied again restarts the fan.
\<close>


theorem cycle_twice_counterexample:
  "map (\<lambda>s. (runState s, relayControlPin s))
     (run_cycles (setup_sketch LOW LOW LOW LOW)
        [\<lparr>unixtime = 1000, bedroomSensorInput = LOW, officeSensorInput = LOW,
          kitchenSensorInput = LOW, furnaceSensorInput = LOW,
          desiredRatio = Finite (1 / 4), adjustmentEnabled = True\<rparr>,
         \<lparr>unixtime = 2000, bedroomSensorInput = LOW, officeSensorInput = LOW,
          kitchenSensorInput = LOW, furnaceSensorInput = LOW,
          desiredRatio = Finite (1 / 4), adjustmentEnabled = True\<rparr>,
         \<lparr>unixtime = 2000, bedroomSensorInput = LOW, officeSensorInput = LOW,
          kitchenSensorInput = LOW, furnaceSensorInput = LOW,
          desiredRatio = Finite (1 / 4), adjustmentEnabled = True\<rparr>])
   = [(Running, LOW), (notRunningAdjusting, LOW), (notRunningAdjusting, HIGH)]
   \<and> map (\<lambda>s. (runState s, relayControlPin s))
     (run_cycles (setup_sketch LOW LOW LOW LOW)
        [\<lparr>unixtime = 1000, bedroomSensorInput = LOW, officeSensorInput = LOW,
          kitchenSensorInput = LOW, furnaceSensorInput = LOW,
          desiredRatio = Finite (1 / 4), adjustmentEnabled = False\<rparr>,
         \<lparr>unixtime = 1100, bedroomSensorInput = LOW, officeSensorInput = LOW,
          kitchenSensorInput = LOW, furnaceSensorInput = HIGH,
          desiredRatio = Finite (1 / 4), adjustmentEnabled = False\<rparr>,
         \<lparr>unixtime = 2000, bedroomSensorInput = LOW, officeSensorInput = LOW,
          kitchenSensorInput = LOW, furnaceSensorInput = LOW,
          desiredRatio = Finite (1 / 4), adjustmentEnabled = False\<rparr>,
         \<lparr>unixtime = 2100, bedroomSensorInput = LOW, officeSensorInput = LOW,
          kitchenSensorInput = LOW, furnaceSensorInput = HIGH,
          desiredRatio = Finite (1 / 4), adjustmentEnabled = True\<rparr>,
         \<lparr>unixtime = 2500, bedroomSensorInput = LOW, officeSensorInput = LOW,
          kitchenSensorInput = LOW, furnaceSensorInput = LOW,
          desiredRatio = Finite (1 / 4), adjustmentEnabled = False\<rparr>,
         \<lparr>unixtime = 2500, bedroomSensorInput = LOW, officeSensorInput = LOW,
          kitchenSensorInput = LOW, furnaceSensorInput = LOW,
          desiredRatio = Finite (1 / 4), adjustmentEnabled = False\<rparr>])
   = [(Running, LOW), (notRunning, HIGH), (Running, LOW), (RunningAdjusting, LOW),
      (notRunning, HIGH), (Running, LOW)]"
proof -
  have a: "calcPeriodRatio 1000 1000 1000 = NaN"
    by (simp add: calcPeriodRatio_def float_of_ulong_zero)
  have b: "calcPeriodRatio 2000 1000 1000 = Finite 1"
    by (rule ratio_full) simp_all
  have "round32 (100 / 1000) = Finite (13421773 / 134217728)" by code_simp
  then have c: "calcPeriodRatio 2100 2000 1100 = Finite (13421773 / 134217728)"
    using ratio_exact [of 1100 2000 2100] by simp
  show ?thesis
    by (simp add: loop_def loop_clock_def loop_sensors_def loop_switch_def setup_sketch_def
        doorDelay_def fgt_def Let_def split_beta a b c)
qed

text \<open>
  Claim C8 as the code has it, for a target ratio that is not negative: a
  second application of the cycle to the same input leaves \<open>averageCount\<close>
  and \<open>movingAverage\<close> as the first left them; it leaves the run state as the
  first left it, unless the first moved \<open>RunningAdjusting\<close> to
  \<open>notRunning\<close>; and with the run state unchanged it leaves the relay as the
  first left it, unless the first moved \<open>Running\<close> to
  \<open>notRunningAdjusting\<close>.
\<close>

theorem cycle_twice:
  assumes "fge (desiredRatio i) (Finite 0)"
  shows "averageCount (fst (loop i (fst (loop i s)))) = averageCount (fst (loop i s))
    \<and> movingAverage (fst (loop i (fst (loop i s)))) = movingAverage (fst (loop i s))
    \<and> (\<not> (runState s = RunningAdjusting \<and> runState (fst (loop i s)) = notRunning) \<longrightarrow>
         runState (fst (loop i (fst (loop i s)))) = runState (fst (loop i s)))
    \<and> (runState (fst (loop i (fst (loop i s)))) = runState (fst (loop i s))
        \<and> \<not> (runState s = Running \<and> runState (fst (loop i s)) = notRunningAdjusting) \<longrightarrow>
         relayControlPin (fst (loop i (fst (loop i s)))) = relayControlPin (fst (loop i s)))"
  using switch_twice [OF assms, of "loop_sensors i (loop_clock i s)"]
  unfolding loop_twice runState_pre unfolding loop_def .


theorem cycle_twice_witness:
  "fge (Finite (1 / 4)) (Finite 0)
   \<and> averageCount (fst (loop \<lparr>unixtime = 1000, bedroomSensorInput = LOW, officeSensorInput = LOW,
          kitchenSensorInput = LOW, furnaceSensorInput = LOW,
          desiredRatio = Finite (1 / 4), adjustmentEnabled = True\<rparr>
        (fst (loop \<lparr>unixtime = 1000, bedroomSensorInput = LOW, officeSensorInput = LOW,
          kitchenSensorInput = LOW, furnaceSensorInput = LOW,
          desiredRatio = Finite (1 / 4), adjustmentEnabled = True\<rparr>
          (setup_sketch HIGH LOW LOW LOW)))))
     = averageCount (fst (loop \<lparr>unixtime = 1000, bedroomSensorInput = LOW, officeSensorInput = LOW,
          kitchenSensorInput = LOW, furnaceSensorInput = LOW,
          desiredRatio = Finite (1 / 4), adjustmentEnabled = True\<rparr>
          (setup_sketch HIGH LOW LOW LOW)))
   \<and> runState (fst (loop \<lparr>unixtime = 1000, bedroomSensorInput = LOW, officeSensorInput = LOW,
          kitchenSensorInput = LOW, furnaceSensorInput = LOW,
          desiredRatio = Finite (1 / 4), adjustmentEnabled = True\<rparr>
        (fst (loop \<lparr>unixtime = 1000, bedroomSensorInput = LOW, officeSensorInput = LOW,
          kitchenSensorInput = LOW, furnaceSensorInput = LOW,
          desiredRatio = Finite (1 / 4), adjustmentEnabled = True\<rparr>
          (setup_sketch HIGH LOW LOW LOW)))))
     = runState (fst (loop \<lparr>unixtime = 1000, bedroomSensorInput = LOW, officeSensorInput = LOW,
          kitchenSensorInput = LOW, furnaceSensorInput = LOW,
          desiredRatio = Finite (1 / 4), adjustmentEnabled = True\<rparr>
          (setup_sketch HIGH LOW LOW LOW)))
   \<and> relayControlPin (fst (loop \<lparr>unixtime = 1000, bedroomSensorInput = LOW,
          officeSensorInput = LOW,
          kitchenSensorInput = LOW, furnaceSensorInput = LOW,
          desiredRatio = Finite (1 / 4), adjustmentEnabled = True\<rparr>
        (fst (loop \<lparr>unixtime = 1000, bedroomSensorInput = LOW, officeSensorInput = LOW,
          kitchenSensorInput = LOW, furnaceSensorInput = LOW,
          desiredRatio = Finite (1 / 4), adjustmentEnabled = True\<rparr>
          (setup_sketch HIGH LOW LOW LOW)))))
     = relayControlPin (fst (loop \<lparr>unixtime = 1000, bedroomSensorInput = LOW,
          officeSensorInput = LOW,
          kitchenSensorInput = LOW, furnaceSensorInput = LOW,
          desiredRatio = Finite (1 / 4), adjustmentEnabled = True\<rparr>
          (setup_sketch HIGH LOW LOW LOW)))"
proof -
  have "runState (setup_sketch HIGH LOW LOW LOW) = notRunning" by (simp add: setup_sketch_def)
  then show ?thesis
    using cycle_twice [of "\<lparr>unixtime = 1000, bedroomSensorInput = LOW, officeSensorInput = LOW,
          kitchenSensorInput = LOW, furnaceSensorInput = LOW,
          desiredRatio = Finite (1 / 4), adjustmentEnabled = True\<rparr>"
        "setup_sketch HIGH LOW LOW LOW"]
    by simp
qed

end
